theory Spec2Isabelle
  imports Main "HOL-Library.Word" "HOL-Library.Signed_Division" "HOL-Library.Multiset"
begin

section \<open>Data model of the combat tools (package tools)\<close>

text \<open>
  Go's \<open>int\<close> is a 64-bit two's-complement integer on the 64-bit targets the server is
  built for: addition and subtraction wrap around, comparisons are signed, and \<open>/\<close>
  truncates towards zero.
\<close>

type_synonym go_int = "64 word"

definition go_div :: "go_int \<Rightarrow> go_int \<Rightarrow> go_int" where
  "go_div a b = word_of_int (sint a sdiv sint b)"

text \<open>The verbs \<open>%d\<close> and \<open>%v\<close> of \<open>fmt.Sprintf\<close>, as far as the handlers use them.\<close>

function show_nat :: "nat \<Rightarrow> string" where
  "show_nat n =
     (if n < 10 then [char_of (48 + n)]
      else show_nat (n div 10) @ [char_of (48 + n mod 10)])"
  by pat_completeness auto
termination
  by (relation "measure (\<lambda>n. n)") auto

declare show_nat.simps [simp del]

definition show_int :: "go_int \<Rightarrow> string" where
  "show_int i =
     (if sint i < 0 then ''-'' @ show_nat (nat (- sint i)) else show_nat (nat (sint i)))"

fun join_space :: "string list \<Rightarrow> string" where
  "join_space [] = []"
| "join_space [x] = x"
| "join_space (x # y # ys) = x @ '' '' @ join_space (y # ys)"

definition show_strings :: "string list \<Rightarrow> string" where
  "show_strings xs = ''['' @ join_space xs @ '']''"

record Entity =
  ID :: string
  Name :: string
  InitiativeRoll :: go_int
  MaxHP :: go_int
  CurrentHP :: go_int
  AC :: go_int
  Conditions :: "string \<rightharpoonup> go_int"
  Resources :: "string \<rightharpoonup> go_int"
  IsMonster :: bool
  MonsterName :: string
  LegendaryActions :: go_int
  MaxLegendaryActions :: go_int
  LegendaryResistances :: go_int

record CombatState =
  Entities :: "string \<rightharpoonup> Entity"
  TurnOrder :: "string list"
  CurrentTurn :: go_int
  RoundNumber :: go_int

text \<open>
  A handler returns \<open>(result, output, error)\<close> and works on the package-level
  \<open>combatState\<close>. In the model a handler takes the state and returns the state it
  leaves behind together with its outcome: \<open>Ok\<close> for a nil error, \<open>Err\<close> for the
  error built by \<open>fmt.Errorf\<close>, \<open>Panic\<close> for a run-time panic (an index out of
  range, a nil pointer dereference).
\<close>

datatype 'a outcome = Ok 'a | Err string | Panic

text \<open>
  \<open>range\<close> over a Go map visits every key once, in an order the run time chooses
  afresh each time. A handler that ranges over a map takes the order of the visit as an
  argument; \<open>range_order m ks\<close> says that \<open>ks\<close> is such an order for \<open>m\<close>.
\<close>

definition range_order :: "('k \<rightharpoonup> 'v) \<Rightarrow> 'k list \<Rightarrow> bool" where
  "range_order m ks \<longleftrightarrow> distinct ks \<and> set ks = dom m"

text \<open>The state \<open>RegisterCombatTools\<close> installs before any tool is called.\<close>

definition RegisterCombatTools :: CombatState where
  "RegisterCombatTools =
     \<lparr>Entities = Map.empty, TurnOrder = [], CurrentTurn = 0, RoundNumber = 0\<rparr>"

section \<open>start_combat\<close>

record EntityInit =
  ID_init :: string
  Name_init :: string
  Initiative :: go_int
  HP :: go_int
  AC_init :: go_int
  IsMonster_init :: bool
  MonsterName_init :: string

record StartCombatOutput =
  TurnOrder_out :: "string list"
  Message_start :: string

definition loadMonsterStats :: "Entity \<Rightarrow> Entity" where
  "loadMonsterStats entity =
     (if MonsterName entity = ''Ancient Red Dragon''
      then entity\<lparr>MaxLegendaryActions := 3, LegendaryActions := 3, LegendaryResistances := 3\<rparr>
      else entity)"

definition new_entity :: "EntityInit \<Rightarrow> Entity" where
  "new_entity e =
     (let entity = \<lparr>ID = ID_init e, Name = Name_init e, InitiativeRoll = Initiative e,
                     MaxHP = HP e, CurrentHP = HP e, AC = AC_init e,
                     Conditions = Map.empty, Resources = Map.empty,
                     IsMonster = IsMonster_init e, MonsterName = MonsterName_init e,
                     LegendaryActions = 0, MaxLegendaryActions = 0,
                     LegendaryResistances = 0\<rparr>
      in if IsMonster_init e \<and> MonsterName_init e \<noteq> [] then loadMonsterStats entity
         else entity)"

text \<open>The loop \<open>for _, e := range input.Entities\<close>: a later definition overwrites an
  earlier one with the same id.\<close>

fun create_entities :: "(string \<rightharpoonup> Entity) \<Rightarrow> EntityInit list \<Rightarrow> (string \<rightharpoonup> Entity)" where
  "create_entities m [] = m"
| "create_entities m (e # es) = create_entities (m(ID_init e \<mapsto> new_entity e)) es"

record initPair =
  id_p :: string
  init_p :: go_int

text \<open>The loop \<open>for id, e := range combatState.Entities\<close> that fills \<open>pairs\<close>,
  visiting the keys in the order \<open>keys\<close>.\<close>

fun collect_pairs :: "(string \<rightharpoonup> Entity) \<Rightarrow> string list \<Rightarrow> initPair list" where
  "collect_pairs m [] = []"
| "collect_pairs m (k # ks) =
     (case m k of
        None \<Rightarrow> collect_pairs m ks
      | Some e \<Rightarrow> \<lparr>id_p = k, init_p = InitiativeRoll e\<rparr> # collect_pairs m ks)"

text \<open>
  \<open>sort.Slice\<close> belongs to Go's standard library. Its documentation promises a
  permutation of the slice in which no element is less than an element before it, and
  promises no stability. With \<open>less i j = pairs[i].init > pairs[j].init\<close> that is the
  contract below; the handler takes the sorting function as an argument.
\<close>

definition less_pair :: "initPair \<Rightarrow> initPair \<Rightarrow> bool" where
  "less_pair p q \<longleftrightarrow> init_p q <s init_p p"

definition sort_Slice_contract :: "(initPair list \<Rightarrow> initPair list) \<Rightarrow> bool" where
  "sort_Slice_contract srt \<longleftrightarrow>
     (\<forall>ps. mset (srt ps) = mset ps \<and> sorted_wrt (\<lambda>p q. \<not> less_pair q p) (srt ps))"

definition handleStartCombat ::
  "string list \<Rightarrow> (initPair list \<Rightarrow> initPair list) \<Rightarrow> CombatState \<Rightarrow> EntityInit list
     \<Rightarrow> CombatState \<times> StartCombatOutput outcome" where
  "handleStartCombat keys srt s input =
     (let ents = create_entities Map.empty input;
          pairs = srt (collect_pairs ents keys);
          order = map id_p pairs;
          s' = \<lparr>Entities = ents, TurnOrder = order, CurrentTurn = 0, RoundNumber = 1\<rparr>
      in (s', Ok \<lparr>TurnOrder_out = order,
                  Message_start = ''Combat started with '' @ show_nat (card (dom ents))
                    @ '' combatants. Round 1, turn 1.''\<rparr>))"

text \<open>An insertion sort by descending initiative: one function that meets the contract.\<close>

fun insert_pair :: "initPair \<Rightarrow> initPair list \<Rightarrow> initPair list" where
  "insert_pair p [] = [p]"
| "insert_pair p (q # qs) = (if less_pair q p then q # insert_pair p qs else p # q # qs)"

fun insertion_sort :: "initPair list \<Rightarrow> initPair list" where
  "insertion_sort [] = []"
| "insertion_sort (p # ps) = insert_pair p (insertion_sort ps)"

section \<open>next_turn\<close>

record NextTurnOutput =
  CurrentEntityID :: string
  CurrentEntityName :: string
  RoundNumber_out :: go_int
  Effects :: "string list"
  CombatStatus :: "string \<rightharpoonup> string"

text \<open>\<open>len(xs)\<close> as an \<open>int\<close>, and \<open>xs[i]\<close>, which panics outside \<open>0 \<le> i < len(xs)\<close>.\<close>

definition len :: "'a list \<Rightarrow> go_int" where
  "len xs = of_nat (length xs)"

definition index_slice :: "'a list \<Rightarrow> go_int \<Rightarrow> 'a option" where
  "index_slice xs i =
     (if 0 \<le> sint i \<and> nat (sint i) < length xs then Some (xs ! nat (sint i)) else None)"

text \<open>
  The loop \<open>for condition, duration := range current.Conditions\<close>, visiting the keys in
  the order \<open>cks\<close>: a positive counter is decremented, and the condition is deleted when
  the counter reaches zero.
\<close>

fun process_conditions ::
  "string list \<Rightarrow> (string \<rightharpoonup> go_int) \<Rightarrow> string list \<Rightarrow> (string \<rightharpoonup> go_int) \<times> string list" where
  "process_conditions [] conds effects = (conds, effects)"
| "process_conditions (condition # cks) conds effects =
     (case conds condition of
        None \<Rightarrow> process_conditions cks conds effects
      | Some duration \<Rightarrow>
          if 0 <s duration then
            (if duration - 1 = 0
             then process_conditions cks (conds(condition := None))
                    (effects @ [''Condition '' @ [CHR 0x27] @ condition @ [CHR 0x27] @ '' ended''])
             else process_conditions cks (conds(condition \<mapsto> duration - 1)) effects)
          else process_conditions cks conds effects)"

text \<open>One line of the status summary; \<open>condList\<close> is the entity's condition names in
  the order the inner \<open>range\<close> visited them.\<close>

definition status_line :: "Entity \<Rightarrow> string list \<Rightarrow> string" where
  "status_line e condList =
     (let condStr = (if 0 < length condList then '' ['' @ show_strings condList @ '']'' else [])
      in Name e @ '': '' @ show_int (CurrentHP e) @ ''/'' @ show_int (MaxHP e) @ '' HP''
           @ condStr)"

definition handleNextTurn ::
  "string list \<Rightarrow> (string \<Rightarrow> string list) \<Rightarrow> CombatState
     \<Rightarrow> CombatState \<times> NextTurnOutput outcome" where
  "handleNextTurn cks sks s =
     (let s1 = s\<lparr>CurrentTurn := CurrentTurn s + 1\<rparr>;
          s2 = (if len (TurnOrder s1) \<le>s CurrentTurn s1
                then s1\<lparr>CurrentTurn := 0, RoundNumber := RoundNumber s1 + 1\<rparr> else s1)
      in case index_slice (TurnOrder s2) (CurrentTurn s2) of
           None \<Rightarrow> (s2, Panic)
         | Some currentID \<Rightarrow>
            (case Entities s2 currentID of
               None \<Rightarrow> (s2, Panic)
             | Some current \<Rightarrow>
                 let reset = IsMonster current \<and> 0 <s MaxLegendaryActions current;
                     current1 = (if reset
                                 then current\<lparr>LegendaryActions := MaxLegendaryActions current\<rparr>
                                 else current);
                     effects1 = (if reset
                                 then [''Legendary actions reset to ''
                                         @ show_int (MaxLegendaryActions current)]
                                 else []);
                     (conds, effects) = process_conditions cks (Conditions current1) effects1;
                     current2 = current1\<lparr>Conditions := conds\<rparr>;
                     s3 = s2\<lparr>Entities := (Entities s2)(currentID \<mapsto> current2)\<rparr>;
                     status = (\<lambda>id. case Entities s3 id of
                                        None \<Rightarrow> None
                                      | Some e \<Rightarrow> Some (status_line e (sks id)))
                 in (s3, Ok \<lparr>CurrentEntityID = currentID,
                             CurrentEntityName = Name current2,
                             RoundNumber_out = RoundNumber s3,
                             Effects = effects,
                             CombatStatus = status\<rparr>)))"

section \<open>apply_damage and apply_healing\<close>

record ApplyDamageInput =
  TargetID :: string
  Damage :: go_int
  DamageType :: string

record ApplyDamageOutput =
  FinalDamage :: go_int
  RemainingHP :: go_int
  Message_damage :: string
  IsUnconscious :: bool

definition handleApplyDamage ::
  "CombatState \<Rightarrow> ApplyDamageInput \<Rightarrow> CombatState \<times> ApplyDamageOutput outcome" where
  "handleApplyDamage s input =
     (case Entities s (TargetID input) of
        None \<Rightarrow> (s, Err (''target not found: '' @ TargetID input))
      | Some target \<Rightarrow>
          let resisted = (Resources target ''resistances'' \<noteq> None);
              finalDamage = (if resisted then go_div (Damage input) 2 else Damage input);
              modifier = (if resisted then '' (resisted)'' else []);
              hp = CurrentHP target - finalDamage;
              target' = target\<lparr>CurrentHP := (if hp <s 0 then 0 else hp)\<rparr>;
              isUnconscious = (CurrentHP target' = 0)
          in (s\<lparr>Entities := (Entities s)(TargetID input \<mapsto> target')\<rparr>,
              Ok \<lparr>FinalDamage = finalDamage,
                  RemainingHP = CurrentHP target',
                  Message_damage = Name target' @ '' takes '' @ show_int finalDamage @ '' ''
                    @ DamageType input @ '' damage'' @ modifier @ ''. ''
                    @ show_int (CurrentHP target') @ '' HP remaining.'',
                  IsUnconscious = isUnconscious\<rparr>))"

record ApplyHealingInput =
  TargetID_heal :: string
  Amount :: go_int

record ApplyHealingOutput =
  AmountHealed :: go_int
  CurrentHP_out :: go_int
  Message_heal :: string

definition handleApplyHealing ::
  "CombatState \<Rightarrow> ApplyHealingInput \<Rightarrow> CombatState \<times> ApplyHealingOutput outcome" where
  "handleApplyHealing s input =
     (case Entities s (TargetID_heal input) of
        None \<Rightarrow> (s, Err (''target not found: '' @ TargetID_heal input))
      | Some target \<Rightarrow>
          let before = CurrentHP target;
              hp = CurrentHP target + Amount input;
              target' = target\<lparr>CurrentHP := (if MaxHP target <s hp then MaxHP target else hp)\<rparr>;
              healed = CurrentHP target' - before
          in (s\<lparr>Entities := (Entities s)(TargetID_heal input \<mapsto> target')\<rparr>,
              Ok \<lparr>AmountHealed = healed,
                  CurrentHP_out = CurrentHP target',
                  Message_heal = Name target' @ '' healed for '' @ show_int healed
                    @ '' HP. Now at '' @ show_int (CurrentHP target') @ ''/''
                    @ show_int (MaxHP target') @ ''.''\<rparr>))"

section \<open>add_condition and track_resource\<close>

record AddConditionInput =
  TargetID_cond :: string
  Condition :: string
  Duration :: go_int

record AddConditionOutput =
  Message_cond :: string

definition handleAddCondition ::
  "CombatState \<Rightarrow> AddConditionInput \<Rightarrow> CombatState \<times> AddConditionOutput outcome" where
  "handleAddCondition s input =
     (case Entities s (TargetID_cond input) of
        None \<Rightarrow> (s, Err (''target not found: '' @ TargetID_cond input))
      | Some target \<Rightarrow>
          let target' = target\<lparr>Conditions := (Conditions target)(Condition input \<mapsto> Duration input)\<rparr>;
              durationMsg = (if Duration input = - 1 then ''permanent''
                             else show_int (Duration input) @ '' turns'')
          in (s\<lparr>Entities := (Entities s)(TargetID_cond input \<mapsto> target')\<rparr>,
              Ok \<lparr>Message_cond = Name target' @ '' is now '' @ Condition input @ '' (''
                    @ durationMsg @ '').''\<rparr>))"

record TrackResourceInput =
  EntityID_res :: string
  ResourceName :: string
  CurrentValue :: go_int

record TrackResourceOutput =
  Message_res :: string

definition handleTrackResource ::
  "CombatState \<Rightarrow> TrackResourceInput \<Rightarrow> CombatState \<times> TrackResourceOutput outcome" where
  "handleTrackResource s input =
     (case Entities s (EntityID_res input) of
        None \<Rightarrow> (s, Err (''entity not found: '' @ EntityID_res input))
      | Some entity \<Rightarrow>
          let entity' = entity\<lparr>Resources := (Resources entity)(ResourceName input \<mapsto> CurrentValue input)\<rparr>
          in (s\<lparr>Entities := (Entities s)(EntityID_res input \<mapsto> entity')\<rparr>,
              Ok \<lparr>Message_res = Name entity' @ '' now has '' @ show_int (CurrentValue input)
                    @ '' '' @ ResourceName input @ ''.''\<rparr>))"

section \<open>make_saving_throw and use_legendary_action\<close>

record SavingThrowInput =
  EntityID :: string
  SaveType :: string
  DC :: go_int

record SavingThrowOutput =
  Roll :: go_int
  Bonus :: go_int
  Total :: go_int
  Success :: bool
  UsedLegendaryResistance :: bool
  RemainingLegendaryResists :: go_int
  Message_save :: string

text \<open>The handler draws \<open>rand.Intn(20)\<close>; the model takes the number drawn, \<open>n\<close> with
  \<open>0 \<le> n < 20\<close>, as an argument.\<close>

definition handleSavingThrow ::
  "go_int \<Rightarrow> CombatState \<Rightarrow> SavingThrowInput \<Rightarrow> CombatState \<times> SavingThrowOutput outcome" where
  "handleSavingThrow n s input =
     (case Entities s (EntityID input) of
        None \<Rightarrow> (s, Err (''entity not found: '' @ EntityID input))
      | Some entity \<Rightarrow>
          let roll = n + 1;
              bonus = (if IsMonster entity then 3 else 0);
              total = roll + bonus;
              success0 = (DC input \<le>s total);
              usedLegendary = (\<not> success0 \<and> 0 <s LegendaryResistances entity);
              success = (success0 \<or> usedLegendary);
              entity' = (if usedLegendary
                         then entity\<lparr>LegendaryResistances := LegendaryResistances entity - 1\<rparr>
                         else entity);
              message0 = Name entity' @ '' rolled '' @ show_int roll @ ''+'' @ show_int bonus
                    @ ''='' @ show_int total @ '' vs DC '' @ show_int (DC input) @ '': ''
                    @ (if success then ''SUCCESS'' else ''FAILURE'');
              message = (if usedLegendary
                         then message0 @ '' (used legendary resistance, ''
                                @ show_int (LegendaryResistances entity') @ '' remaining)''
                         else message0)
          in (s\<lparr>Entities := (Entities s)(EntityID input \<mapsto> entity')\<rparr>,
              Ok \<lparr>Roll = roll, Bonus = bonus, Total = total, Success = success,
                  UsedLegendaryResistance = usedLegendary,
                  RemainingLegendaryResists = LegendaryResistances entity',
                  Message_save = message\<rparr>))"

record LegendaryActionInput =
  MonsterID :: string
  ActionName :: string
  Cost :: go_int

record LegendaryActionOutput =
  Success_action :: bool
  RemainingActions :: go_int
  Message_action :: string

definition handleLegendaryAction ::
  "CombatState \<Rightarrow> LegendaryActionInput \<Rightarrow> CombatState \<times> LegendaryActionOutput outcome" where
  "handleLegendaryAction s input =
     (case Entities s (MonsterID input) of
        None \<Rightarrow> (s, Err (''monster not found: '' @ MonsterID input))
      | Some monster \<Rightarrow>
          if LegendaryActions monster <s Cost input
          then (s, Ok \<lparr>Success_action = False,
                       RemainingActions = LegendaryActions monster,
                       Message_action = ''Insufficient legendary actions. Has ''
                         @ show_int (LegendaryActions monster) @ '', needs ''
                         @ show_int (Cost input) @ ''.''\<rparr>)
          else
            let monster' = monster\<lparr>LegendaryActions := LegendaryActions monster - Cost input\<rparr>
            in (s\<lparr>Entities := (Entities s)(MonsterID input \<mapsto> monster')\<rparr>,
                Ok \<lparr>Success_action = True,
                    RemainingActions = LegendaryActions monster',
                    Message_action = Name monster' @ '' uses '' @ ActionName input @ '' (cost ''
                      @ show_int (Cost input) @ ''). '' @ show_int (LegendaryActions monster')
                      @ '' legendary actions remaining.''\<rparr>))"

section \<open>The tools as the server offers them\<close>

text \<open>
  \<open>RegisterCombatTools\<close> registers the eight handlers under their tool names. A call of
  a tool runs its handler on the shared state. What the run time chooses during the call
  (the order of each \<open>range\<close> over a map, the behaviour of \<open>sort.Slice\<close> on equal
  keys, the number drawn by \<open>rand.Intn\<close>) is any value that meets its contract.
\<close>

datatype request =
    StartCombat "EntityInit list"
  | NextTurn
  | ApplyDamage ApplyDamageInput
  | ApplyHealing ApplyHealingInput
  | AddCondition AddConditionInput
  | MakeSavingThrow SavingThrowInput
  | UseLegendaryAction LegendaryActionInput
  | TrackResource TrackResourceInput

datatype tool_output =
    StartCombatOut StartCombatOutput
  | NextTurnOut NextTurnOutput
  | ApplyDamageOut ApplyDamageOutput
  | ApplyHealingOut ApplyHealingOutput
  | AddConditionOut AddConditionOutput
  | SavingThrowOut SavingThrowOutput
  | LegendaryActionOut LegendaryActionOutput
  | TrackResourceOut TrackResourceOutput

text \<open>
  The orders a call of \<open>next_turn\<close> may be given: \<open>cks\<close> visits the conditions of the
  entity whose turn begins, \<open>sks id\<close> visits the conditions of entity \<open>id\<close> when the
  status summary is built. A call that panics reaches neither loop.
\<close>

definition next_turn_orders :: "string list \<Rightarrow> (string \<Rightarrow> string list) \<Rightarrow> CombatState \<Rightarrow> bool" where
  "next_turn_orders cks sks s \<longleftrightarrow>
     (case handleNextTurn cks sks s of
        (s', Ok out) \<Rightarrow>
          (\<forall>current. Entities s (CurrentEntityID out) = Some current
             \<longrightarrow> range_order (Conditions current) cks)
          \<and> (\<forall>id e. Entities s' id = Some e \<longrightarrow> range_order (Conditions e) (sks id))
      | _ \<Rightarrow> True)"

inductive tool_call :: "CombatState \<Rightarrow> request \<Rightarrow> CombatState \<Rightarrow> tool_output outcome \<Rightarrow> bool" where
  call_start_combat:
    "sort_Slice_contract srt \<Longrightarrow> range_order (create_entities Map.empty es) keys \<Longrightarrow>
     handleStartCombat keys srt s es = (s', r) \<Longrightarrow>
     tool_call s (StartCombat es) s' (map_outcome StartCombatOut r)"
| call_next_turn:
    "next_turn_orders cks sks s \<Longrightarrow> handleNextTurn cks sks s = (s', r) \<Longrightarrow>
     tool_call s NextTurn s' (map_outcome NextTurnOut r)"
| call_apply_damage:
    "handleApplyDamage s i = (s', r) \<Longrightarrow>
     tool_call s (ApplyDamage i) s' (map_outcome ApplyDamageOut r)"
| call_apply_healing:
    "handleApplyHealing s i = (s', r) \<Longrightarrow>
     tool_call s (ApplyHealing i) s' (map_outcome ApplyHealingOut r)"
| call_add_condition:
    "handleAddCondition s i = (s', r) \<Longrightarrow>
     tool_call s (AddCondition i) s' (map_outcome AddConditionOut r)"
| call_make_saving_throw:
    "0 \<le>s n \<Longrightarrow> n <s 20 \<Longrightarrow> handleSavingThrow n s i = (s', r) \<Longrightarrow>
     tool_call s (MakeSavingThrow i) s' (map_outcome SavingThrowOut r)"
| call_use_legendary_action:
    "handleLegendaryAction s i = (s', r) \<Longrightarrow>
     tool_call s (UseLegendaryAction i) s' (map_outcome LegendaryActionOut r)"
| call_track_resource:
    "handleTrackResource s i = (s', r) \<Longrightarrow>
     tool_call s (TrackResource i) s' (map_outcome TrackResourceOut r)"

text \<open>Successive calls of \<open>next_turn\<close> that all return, with their outputs.\<close>

inductive next_turns :: "CombatState \<Rightarrow> NextTurnOutput list \<Rightarrow> CombatState \<Rightarrow> bool" where
  next_turns_Nil: "next_turns s [] s"
| next_turns_Cons:
    "tool_call s NextTurn s' (Ok (NextTurnOut out)) \<Longrightarrow> next_turns s' outs s'' \<Longrightarrow>
     next_turns s (out # outs) s''"

text \<open>The entity a request names, if it names one.\<close>

fun request_entity :: "request \<Rightarrow> string option" where
  "request_entity (StartCombat es) = None"
| "request_entity NextTurn = None"
| "request_entity (ApplyDamage i) = Some (TargetID i)"
| "request_entity (ApplyHealing i) = Some (TargetID_heal i)"
| "request_entity (AddCondition i) = Some (TargetID_cond i)"
| "request_entity (MakeSavingThrow i) = Some (EntityID i)"
| "request_entity (UseLegendaryAction i) = Some (MonsterID i)"
| "request_entity (TrackResource i) = Some (EntityID_res i)"

text \<open>The initiatives of the entities in turn order.\<close>

definition turn_initiatives :: "CombatState \<Rightarrow> go_int list" where
  "turn_initiatives s =
     List.map_filter (\<lambda>k. map_option InitiativeRoll (Entities s k)) (TurnOrder s)"

text \<open>
  The bounds on hit points, the calls whose input keeps them (no negative hit points, damage
  or healing, and no healing that leaves the range of a 64-bit integer), and the tools that
  write hit points at all.
\<close>

definition hp_bounds :: "CombatState \<Rightarrow> bool" where
  "hp_bounds s \<longleftrightarrow>
     (\<forall>k e. Entities s k = Some e \<longrightarrow> 0 \<le>s CurrentHP e \<and> CurrentHP e \<le>s MaxHP e)"

definition hp_unchanged :: "CombatState \<Rightarrow> CombatState \<Rightarrow> bool" where
  "hp_unchanged s s' \<longleftrightarrow>
     (\<forall>k e'. Entities s' k = Some e' \<longrightarrow>
        (\<exists>e. Entities s k = Some e \<and> CurrentHP e' = CurrentHP e \<and> MaxHP e' = MaxHP e))"

fun hp_safe_request :: "CombatState \<Rightarrow> request \<Rightarrow> bool" where
  "hp_safe_request s (StartCombat es) = (\<forall>i \<in> set es. 0 \<le>s HP i)"
| "hp_safe_request s (ApplyDamage i) = (0 \<le>s Damage i)"
| "hp_safe_request s (ApplyHealing i) =
     (0 \<le>s Amount i \<and>
      (case Entities s (TargetID_heal i) of
         None \<Rightarrow> True
       | Some t \<Rightarrow> sint (CurrentHP t) + sint (Amount i) < 2 ^ 63))"
| "hp_safe_request s _ = True"

fun changes_hp :: "request \<Rightarrow> bool" where
  "changes_hp (StartCombat es) = True"
| "changes_hp (ApplyDamage i) = True"
| "changes_hp (ApplyHealing i) = True"
| "changes_hp _ = False"

text \<open>
  What one visit of the loop over the conditions does to a counter, whether it ends the
  condition, and the effect string it then appends.
\<close>

fun condition_after :: "go_int option \<Rightarrow> go_int option" where
  "condition_after None = None"
| "condition_after (Some d) =
     (if 0 <s d then (if d - 1 = 0 then None else Some (d - 1)) else Some d)"

fun condition_ends :: "go_int option \<Rightarrow> bool" where
  "condition_ends None = False"
| "condition_ends (Some d) = (0 <s d \<and> d - 1 = 0)"

definition ended_message :: "string \<Rightarrow> string" where
  "ended_message c = ''Condition '' @ [CHR 0x27] @ c @ [CHR 0x27] @ '' ended''"

text \<open>The tools that neither range over a map, nor sort, nor draw a number.\<close>

fun deterministic_tool :: "request \<Rightarrow> bool" where
  "deterministic_tool (ApplyDamage i) = True"
| "deterministic_tool (ApplyHealing i) = True"
| "deterministic_tool (AddCondition i) = True"
| "deterministic_tool (UseLegendaryAction i) = True"
| "deterministic_tool (TrackResource i) = True"
| "deterministic_tool _ = False"

section \<open>An encounter to evaluate on\<close>

text \<open>The encounter of the scenarios: a dragon (initiative 15, 546 hit points) and a
  fighter (initiative 10, 30 hit points).\<close>

definition dragon_init :: EntityInit where
  "dragon_init = \<lparr>ID_init = ''A'', Name_init = ''Dragon'', Initiative = 15, HP = 546,
     AC_init = 22, IsMonster_init = True, MonsterName_init = ''Ancient Red Dragon''\<rparr>"

definition fighter_init :: EntityInit where
  "fighter_init = \<lparr>ID_init = ''B'', Name_init = ''Fighter'', Initiative = 10, HP = 30,
     AC_init = 14, IsMonster_init = False, MonsterName_init = []\<rparr>"

definition dragon :: Entity where
  "dragon = new_entity dragon_init"

definition fighter :: Entity where
  "fighter = new_entity fighter_init"

definition example_state :: CombatState where
  "example_state =
     \<lparr>Entities = [''A'' \<mapsto> dragon, ''B'' \<mapsto> fighter], TurnOrder = [''A'', ''B''],
      CurrentTurn = 0, RoundNumber = 1\<rparr>"

definition resistant_state :: CombatState where
  "resistant_state =
     example_state\<lparr>Entities := (Entities example_state)
        (''B'' \<mapsto> fighter\<lparr>Resources := [''resistances'' \<mapsto> 1]\<rparr>)\<rparr>"

text \<open>Two goblins with the same initiative.\<close>

definition goblin_init :: "string \<Rightarrow> EntityInit" where
  "goblin_init k = \<lparr>ID_init = k, Name_init = ''Goblin'', Initiative = 12, HP = 7,
     AC_init = 15, IsMonster_init = True, MonsterName_init = ''Goblin''\<rparr>"

definition twins :: "EntityInit list" where
  "twins = [goblin_init ''g1'', goblin_init ''g2'']"

text \<open>The fighter with two conditions that never expire.\<close>

definition two_conditions_state :: CombatState where
  "two_conditions_state =
     example_state\<lparr>Entities := (Entities example_state)
        (''B'' \<mapsto> fighter\<lparr>Conditions := [''prone'' \<mapsto> 0, ''stunned'' \<mapsto> 0]\<rparr>)\<rparr>"

text \<open>The fighter with two conditions that end at the start of its next turn.\<close>

definition expiring_state :: CombatState where
  "expiring_state =
     example_state\<lparr>Entities := (Entities example_state)
        (''B'' \<mapsto> fighter\<lparr>Conditions := [''prone'' \<mapsto> 1, ''stunned'' \<mapsto> 1]\<rparr>)\<rparr>"

text \<open>
  The states between \<open>start_combat\<close> and the first \<open>add_condition\<close>: the turn index is
  a position of the turn order, every id of the turn order is an entity, and no entity has
  a condition. Calls of \<open>next_turn\<close> keep a state so.
\<close>

definition fresh_encounter :: "CombatState \<Rightarrow> bool" where
  "fresh_encounter s \<longleftrightarrow>
     length (TurnOrder s) < 2 ^ 63
     \<and> 0 \<le> sint (CurrentTurn s) \<and> sint (CurrentTurn s) < int (length (TurnOrder s))
     \<and> set (TurnOrder s) \<subseteq> dom (Entities s)
     \<and> (\<forall>k e. Entities s k = Some e \<longrightarrow> Conditions e = Map.empty)"

section \<open>Auxiliary facts\<close>

inductive_cases tool_call_StartCombatE: "tool_call s (StartCombat es) s' r"
inductive_cases tool_call_NextTurnE: "tool_call s NextTurn s' r"
inductive_cases tool_call_ApplyDamageE: "tool_call s (ApplyDamage i) s' r"
inductive_cases tool_call_ApplyHealingE: "tool_call s (ApplyHealing i) s' r"
inductive_cases tool_call_AddConditionE: "tool_call s (AddCondition i) s' r"
inductive_cases tool_call_UseLegendaryActionE: "tool_call s (UseLegendaryAction i) s' r"
inductive_cases tool_call_TrackResourceE: "tool_call s (TrackResource i) s' r"

lemmas signed_simps = word_sless_alt word_sle_eq

lemma insert_pair_mset: "mset (insert_pair p ps) = add_mset p (mset ps)"
  by (induction ps) auto

lemma insertion_sort_mset: "mset (insertion_sort ps) = mset ps"
  by (induction ps) (auto simp: insert_pair_mset)

lemma insert_pair_set: "set (insert_pair p ps) = insert p (set ps)"
  by (induction ps) auto

lemma insert_pair_sorted:
  "sorted_wrt (\<lambda>p q. \<not> less_pair q p) ps \<Longrightarrow> sorted_wrt (\<lambda>p q. \<not> less_pair q p) (insert_pair p ps)"
  by (induction ps) (auto simp: insert_pair_set less_pair_def signed_simps)

lemma insertion_sort_sorted: "sorted_wrt (\<lambda>p q. \<not> less_pair q p) (insertion_sort ps)"
  by (induction ps) (auto simp: insert_pair_sorted)

lemma insertion_sort_contract: "sort_Slice_contract insertion_sort"
  by (simp add: sort_Slice_contract_def insertion_sort_mset insertion_sort_sorted)

lemma example_entities:
  "create_entities Map.empty [dragon_init, fighter_init] = [''A'' \<mapsto> dragon, ''B'' \<mapsto> fighter]"
  by (simp add: dragon_def fighter_def dragon_init_def fighter_init_def)

lemma example_start:
  "fst (handleStartCombat [''B'', ''A''] insertion_sort s [dragon_init, fighter_init]) = example_state"
  unfolding handleStartCombat_def example_entities
  by (simp add: Let_def example_state_def less_pair_def signed_simps dragon_def fighter_def new_entity_def loadMonsterStats_def dragon_init_def fighter_init_def)

lemma dragon_simps:
  "LegendaryResistances dragon = 3" "MaxLegendaryActions dragon = 3" "LegendaryActions dragon = 3"
  "CurrentHP dragon = 546" "MaxHP dragon = 546" "IsMonster dragon" "Conditions dragon = Map.empty"
  "Resources dragon = Map.empty" "Name dragon = ''Dragon''"
  by (simp_all add: dragon_def new_entity_def loadMonsterStats_def dragon_init_def)

lemma sint_go_bounds: "- (2 ^ 63) \<le> sint (a :: go_int)" "sint (a :: go_int) < 2 ^ 63"
  using sint_ge [of a] sint_lt [of a] by simp_all

lemma sint_sub_exact:
  "- (2 ^ 63) \<le> sint a - sint b \<Longrightarrow> sint a - sint b < 2 ^ 63 \<Longrightarrow> sint (a - b :: go_int) = sint a - sint b"
  by (simp add: sint_word_ariths signed_take_bit_int_eq_self)

lemma sint_add_exact:
  "- (2 ^ 63) \<le> sint a + sint b \<Longrightarrow> sint a + sint b < 2 ^ 63 \<Longrightarrow> sint (a + b :: go_int) = sint a + sint b"
  by (simp add: sint_word_ariths signed_take_bit_int_eq_self)

lemma sint_eq_0_iff: "sint (a :: go_int) = 0 \<longleftrightarrow> a = 0"
  by (rule signed_eq_0_iff)

lemma sdiv_2_bounds: "- (2 ^ 63) \<le> (k::int) \<Longrightarrow> k < 2 ^ 63 \<Longrightarrow> - (2 ^ 63) \<le> k sdiv 2 \<and> k sdiv 2 < 2 ^ 63"
  by (auto simp: signed_divide_int_def sgn_if)

lemma sint_go_div_2: "sint (go_div d 2) = sint d sdiv 2"
proof -
  have "- (2 ^ 63) \<le> sint d sdiv 2 \<and> sint d sdiv 2 < 2 ^ 63"
    using sdiv_2_bounds [OF sint_go_bounds(1) sint_go_bounds(2)] .
  then show ?thesis
    by (simp add: go_div_def sint_sbintrunc' signed_take_bit_int_eq_self)
qed

lemma sdiv_2_nonneg: "0 \<le> (k::int) \<Longrightarrow> k sdiv 2 = k div 2"
  by (simp add: signed_divide_int_def sgn_if)

lemma sdiv_2_neg: "(k::int) < 0 \<Longrightarrow> k sdiv 2 = - ((- k) div 2)"
  by (simp add: signed_divide_int_def sgn_if)

lemma fighter_simps:
  "LegendaryResistances fighter = 0" "MaxLegendaryActions fighter = 0" "LegendaryActions fighter = 0"
  "CurrentHP fighter = 30" "MaxHP fighter = 30" "\<not> IsMonster fighter" "Conditions fighter = Map.empty"
  "Resources fighter = Map.empty" "Name fighter = ''Fighter''"
  by (simp_all add: fighter_def new_entity_def fighter_init_def)

lemma state_update_same: "Entities s k = Some e \<Longrightarrow> s\<lparr>Entities := (Entities s)(k \<mapsto> e)\<rparr> = s"
  by (simp add: map_upd_triv)

lemma example_lookup:
  "Entities example_state ''A'' = Some dragon" "Entities example_state ''B'' = Some fighter"
  "Entities example_state ''Z'' = None"
  by (simp_all add: example_state_def)

lemma next_turn_TurnOrder: "TurnOrder (fst (handleNextTurn cks sks s)) = TurnOrder s"
  by (simp add: handleNextTurn_def Let_def split: option.splits prod.splits)

lemma next_turn_CurrentTurn:
  "CurrentTurn (fst (handleNextTurn cks sks s))
     = (if len (TurnOrder s) \<le>s CurrentTurn s + 1 then 0 else CurrentTurn s + 1)"
  by (simp add: handleNextTurn_def Let_def split: option.splits prod.splits)

lemma next_turn_RoundNumber:
  "RoundNumber (fst (handleNextTurn cks sks s))
     = (if len (TurnOrder s) \<le>s CurrentTurn s + 1 then RoundNumber s + 1 else RoundNumber s)"
  by (simp add: handleNextTurn_def Let_def split: option.splits prod.splits)

lemma next_turn_cases:
  obtains
    (panic) "snd (handleNextTurn cks sks s) = Panic"
      "Entities (fst (handleNextTurn cks sks s)) = Entities s"
      "index_slice (TurnOrder s) (CurrentTurn (fst (handleNextTurn cks sks s))) = None
       \<or> (\<exists>cid. index_slice (TurnOrder s) (CurrentTurn (fst (handleNextTurn cks sks s))) = Some cid
             \<and> Entities s cid = None)"
  | (ok) cid cur conds effs where
      "index_slice (TurnOrder s) (CurrentTurn (fst (handleNextTurn cks sks s))) = Some cid"
      "Entities s cid = Some cur"
      "process_conditions cks (Conditions cur)
         (if IsMonster cur \<and> 0 <s MaxLegendaryActions cur
          then [''Legendary actions reset to '' @ show_int (MaxLegendaryActions cur)] else [])
        = (conds, effs)"
      "Entities (fst (handleNextTurn cks sks s)) = (Entities s)(cid \<mapsto>
         (if IsMonster cur \<and> 0 <s MaxLegendaryActions cur
          then cur\<lparr>LegendaryActions := MaxLegendaryActions cur\<rparr> else cur)
           \<lparr>Conditions := conds\<rparr>)"
      "snd (handleNextTurn cks sks s) =
         Ok \<lparr>CurrentEntityID = cid, CurrentEntityName = Name cur,
             RoundNumber_out = RoundNumber (fst (handleNextTurn cks sks s)),
             Effects = effs,
             CombatStatus = (\<lambda>id. case Entities (fst (handleNextTurn cks sks s)) id of
                                       None \<Rightarrow> None
                                     | Some e \<Rightarrow> Some (status_line e (sks id)))\<rparr>"
proof -
  define s2 where "s2 = (if len (TurnOrder s) \<le>s CurrentTurn s + 1
      then s\<lparr>CurrentTurn := 0, RoundNumber := RoundNumber s + 1\<rparr>
      else s\<lparr>CurrentTurn := CurrentTurn s + 1\<rparr>)"
  have s2: "TurnOrder s2 = TurnOrder s" "Entities s2 = Entities s"
    by (simp_all add: s2_def)
  have ct: "CurrentTurn (fst (handleNextTurn cks sks s)) = CurrentTurn s2"
    by (simp add: next_turn_CurrentTurn s2_def)
  show thesis
  proof (cases "index_slice (TurnOrder s) (CurrentTurn s2)")
    case None
    then have "handleNextTurn cks sks s = (s2, Panic)"
      by (cases "len (TurnOrder s) \<le>s CurrentTurn s + 1")
         (simp_all add: handleNextTurn_def Let_def s2_def)
    then show thesis
      using None ct s2 by (intro panic) simp_all
  next
    case (Some cid)
    show thesis
    proof (cases "Entities s cid")
      case None
      then have "handleNextTurn cks sks s = (s2, Panic)"
        using Some by (cases "len (TurnOrder s) \<le>s CurrentTurn s + 1")
         (simp_all add: handleNextTurn_def Let_def s2_def)
      then show thesis
        using None Some ct s2 by (intro panic) simp_all
    next
      case cur: (Some cur)
      obtain conds effs where pc: "process_conditions cks (Conditions cur)
         (if IsMonster cur \<and> 0 <s MaxLegendaryActions cur
          then [''Legendary actions reset to '' @ show_int (MaxLegendaryActions cur)] else [])
        = (conds, effs)"
        by (cases "process_conditions cks (Conditions cur)
         (if IsMonster cur \<and> 0 <s MaxLegendaryActions cur
          then [''Legendary actions reset to '' @ show_int (MaxLegendaryActions cur)] else [])")
      have res: "handleNextTurn cks sks s =
        (s2\<lparr>Entities := (Entities s)(cid \<mapsto>
           (if IsMonster cur \<and> 0 <s MaxLegendaryActions cur
          then cur\<lparr>LegendaryActions := MaxLegendaryActions cur\<rparr> else cur)
           \<lparr>Conditions := conds\<rparr>)\<rparr>,
         Ok \<lparr>CurrentEntityID = cid, CurrentEntityName = Name cur,
             RoundNumber_out = RoundNumber s2,
             Effects = effs,
             CombatStatus = (\<lambda>id. case ((Entities s)(cid \<mapsto>
           (if IsMonster cur \<and> 0 <s MaxLegendaryActions cur
          then cur\<lparr>LegendaryActions := MaxLegendaryActions cur\<rparr> else cur)
           \<lparr>Conditions := conds\<rparr>)) id of
                                       None \<Rightarrow> None
                                     | Some e \<Rightarrow> Some (status_line e (sks id)))\<rparr>)"
        using Some cur pc
        by (cases "len (TurnOrder s) \<le>s CurrentTurn s + 1")
           (auto simp add: handleNextTurn_def Let_def s2_def)
      show thesis
        using Some cur pc ct unfolding res
        by (intro ok [of cid cur conds effs]) (simp_all add: res)
    qed
  qed
qed

lemma process_conditions_keeps:
  "conds c = Some d \<Longrightarrow> \<not> 0 <s d \<Longrightarrow> fst (process_conditions cks conds effs) c = Some d"
proof (induction cks arbitrary: conds effs)
  case Nil
  then show ?case by simp
next
  case (Cons k cks)
  show ?case
  proof (cases "conds k")
    case None
    then show ?thesis using Cons by simp
  next
    case (Some duration)
    show ?thesis
    proof (cases "k = c")
      case True
      then show ?thesis using Cons Some by simp
    next
      case False
      then show ?thesis using Cons Some by simp
    qed
  qed
qed

lemma next_turn_keeps_condition:
  assumes "handleNextTurn cks sks s = (s', r)" and "Entities s tid = Some e"
    and "Conditions e c = Some d" and "\<not> 0 <s d"
  shows "\<exists>e'. Entities s' tid = Some e' \<and> Conditions e' c = Some d"
proof (cases rule: next_turn_cases [of cks sks s])
  case panic
  then show ?thesis using assms by simp
next
  case (ok cid cur conds effs)
  show ?thesis
  proof (cases "tid = cid")
    case True
    then have cur: "cur = e" using ok(2) assms(2) by simp
    have "fst (process_conditions cks (Conditions cur)
         (if IsMonster cur \<and> 0 <s MaxLegendaryActions cur
          then [''Legendary actions reset to '' @ show_int (MaxLegendaryActions cur)] else []))
         c = Some d"
      using assms(3,4) cur by (intro process_conditions_keeps) simp_all
    then have "conds c = Some d"
      unfolding ok(3) by simp
    then show ?thesis
      using True ok(4) assms(1) by simp
  next
    case False
    then show ?thesis
      using ok(4) assms(1,2,3) by simp
  qed
qed

lemma tool_call_next_turn_Ok:
  assumes "tool_call s NextTurn s' (Ok (NextTurnOut out))"
  obtains cks sks where "handleNextTurn cks sks s = (s', Ok out)" "next_turn_orders cks sks s"
proof -
  from assms obtain cks sks r where h: "handleNextTurn cks sks s = (s', r)"
    and o: "next_turn_orders cks sks s" and r: "Ok (NextTurnOut out) = map_outcome NextTurnOut r"
    by (rule tool_call_NextTurnE)
  from r have "r = Ok out" by (cases r) simp_all
  with h o that show thesis by blast
qed

lemma next_turn_status:
  assumes "handleNextTurn cks sks s = (s', Ok out)" and "next_turn_orders cks sks s"
    and "Entities s' tid = Some e'"
  shows "CombatStatus out tid = Some (status_line e' (sks tid))"
    and "range_order (Conditions e') (sks tid)"
proof -
  show "range_order (Conditions e') (sks tid)"
    using assms by (simp add: next_turn_orders_def)
  show "CombatStatus out tid = Some (status_line e' (sks tid))"
  proof (cases rule: next_turn_cases [of cks sks s])
    case panic
    then show ?thesis using assms(1) by simp
  next
    case (ok cid cur conds effs)
    then show ?thesis using assms(1,3) by simp
  qed
qed

lemma next_turns_keep_condition:
  assumes "next_turns s outs s'" and "Entities s tid = Some e"
    and "Conditions e c = Some d" and "\<not> 0 <s d"
  shows "\<exists>e'. Entities s' tid = Some e' \<and> Conditions e' c = Some d"
  using assms
proof (induction arbitrary: e rule: next_turns.induct)
  case (next_turns_Nil s)
  then show ?case by simp
next
  case (next_turns_Cons s s' out outs s'')
  from next_turns_Cons.hyps(1) obtain cks sks
    where h: "handleNextTurn cks sks s = (s', Ok out)" and o: "next_turn_orders cks sks s"
    by (rule tool_call_next_turn_Ok)
  from next_turn_keeps_condition [OF h next_turns_Cons.prems]
  obtain e' where e': "Entities s' tid = Some e'" "Conditions e' c = Some d" by blast
  show ?case
    by (rule next_turns_Cons.IH [OF e' next_turns_Cons.prems(3)])
qed

lemma create_entities_dom: "dom (create_entities m es) = dom m \<union> set (map ID_init es)"
  by (induction es arbitrary: m) auto

lemma create_entities_new:
  "create_entities m es k = Some e \<Longrightarrow> m k = Some e \<or> (\<exists>i \<in> set es. e = new_entity i \<and> k = ID_init i)"
proof (induction es arbitrary: m)
  case Nil
  then show ?case by simp
next
  case (Cons a es)
  have "(m(ID_init a \<mapsto> new_entity a)) k = Some e
      \<or> (\<exists>i \<in> set es. e = new_entity i \<and> k = ID_init i)"
    by (rule Cons.IH) (use Cons.prems in \<open>simp only: create_entities.simps\<close>)
  then show ?case by (auto split: if_splits)
qed

lemma new_entity_fields:
  "Conditions (new_entity i) = Map.empty" "Resources (new_entity i) = Map.empty"
  "CurrentHP (new_entity i) = HP i" "MaxHP (new_entity i) = HP i"
  "InitiativeRoll (new_entity i) = Initiative i"
  by (simp_all add: new_entity_def loadMonsterStats_def Let_def)

lemma collect_pairs_ids:
  "set ks \<subseteq> dom m \<Longrightarrow> map id_p (collect_pairs m ks) = ks"
  by (induction ks) (auto split: option.splits)

lemma collect_pairs_init:
  "p \<in> set (collect_pairs m ks) \<Longrightarrow> \<exists>e. m (id_p p) = Some e \<and> init_p p = InitiativeRoll e"
  by (induction ks) (auto split: option.splits)

lemma start_combat_state:
  assumes "handleStartCombat keys srt s es = (s', r)"
  shows "Entities s' = create_entities Map.empty es"
    and "TurnOrder s' = map id_p (srt (collect_pairs (create_entities Map.empty es) keys))"
    and "CurrentTurn s' = 0" and "RoundNumber s' = 1"
    and "\<exists>msg. r = Ok \<lparr>TurnOrder_out = TurnOrder s', Message_start = msg\<rparr>"
  using assms by (auto simp: handleStartCombat_def Let_def)

lemma start_combat_order:
  assumes "sort_Slice_contract srt" and "range_order (create_entities Map.empty es) keys"
    and "handleStartCombat keys srt s es = (s', r)"
  shows "mset (TurnOrder s') = mset keys" and "distinct (TurnOrder s')"
    and "set (TurnOrder s') = dom (Entities s')"
    and "length (TurnOrder s') = card (set (map ID_init es))"
proof -
  let ?ents = "create_entities Map.empty es"
  have keys: "distinct keys" "set keys = dom ?ents"
    using assms(2) by (simp_all add: range_order_def)
  have "mset (srt (collect_pairs ?ents keys)) = mset (collect_pairs ?ents keys)"
    using assms(1) by (simp add: sort_Slice_contract_def)
  then have "mset (map id_p (srt (collect_pairs ?ents keys)))
      = mset (map id_p (collect_pairs ?ents keys))"
    by (metis mset_map)
  then show m: "mset (TurnOrder s') = mset keys"
    using keys start_combat_state(2) [OF assms(3)] by (simp add: collect_pairs_ids)
  show d: "distinct (TurnOrder s')"
    using m keys(1) by (metis mset_eq_imp_distinct_iff)
  show "set (TurnOrder s') = dom (Entities s')"
    using m keys(2) start_combat_state(1) [OF assms(3)] by (metis mset_eq_setD)
  have "length (TurnOrder s') = length keys"
    using m by (metis mset_eq_length)
  also have "\<dots> = card (set keys)"
    using keys(1) by (simp add: distinct_card)
  also have "\<dots> = card (set (map ID_init es))"
    using keys(2) by (simp add: create_entities_dom)
  finally show "length (TurnOrder s') = card (set (map ID_init es))" .
qed

lemma sint_of_nat_small: "n < 2 ^ 63 \<Longrightarrow> sint (of_nat n :: go_int) = int n"
proof -
  assume n: "n < 2 ^ 63"
  have "sint (of_nat n :: go_int) = signed_take_bit 63 (int n)"
    by (simp add: signed_of_nat)
  also have "\<dots> = int n"
    using n by (intro signed_take_bit_int_eq_self) auto
  finally show ?thesis .
qed

lemma sint_len: "length xs < 2 ^ 63 \<Longrightarrow> sint (len xs) = int (length xs)"
  by (simp add: len_def sint_of_nat_small)


lemma next_turn_wraps_iff:
  assumes "length (TurnOrder s) = N" and "N < 2 ^ 63" and "sint (CurrentTurn s) = int k" and "k < N"
  shows "sint (CurrentTurn s + 1) = int k + 1"
    and "len (TurnOrder s) \<le>s CurrentTurn s + 1 \<longleftrightarrow> k + 1 = N"
proof -
  show inc: "sint (CurrentTurn s + 1) = int k + 1"
    using assms sint_add_exact [of "CurrentTurn s" 1] by simp
  show "len (TurnOrder s) \<le>s CurrentTurn s + 1 \<longleftrightarrow> k + 1 = N"
    using assms inc by (auto simp: word_sle_eq sint_len)
qed

lemma next_turn_step_counters:
  assumes "length (TurnOrder s) = N" and "N < 2 ^ 63" and "sint (CurrentTurn s) = int k" and "k < N"
  shows "CurrentTurn (fst (handleNextTurn cks sks s)) = (if k + 1 = N then 0 else CurrentTurn s + 1)"
    and "RoundNumber (fst (handleNextTurn cks sks s))
           = (if k + 1 = N then RoundNumber s + 1 else RoundNumber s)"
    and "sint (CurrentTurn (fst (handleNextTurn cks sks s))) = int ((k + 1) mod N)"
    and "RoundNumber (fst (handleNextTurn cks sks s)) = RoundNumber s + of_nat ((k + 1) div N)"
proof -
  note w = next_turn_wraps_iff [OF assms]
  show ct: "CurrentTurn (fst (handleNextTurn cks sks s)) = (if k + 1 = N then 0 else CurrentTurn s + 1)"
    by (simp add: next_turn_CurrentTurn w(2))
  show rn: "RoundNumber (fst (handleNextTurn cks sks s))
           = (if k + 1 = N then RoundNumber s + 1 else RoundNumber s)"
    by (simp add: next_turn_RoundNumber w(2))
  show "sint (CurrentTurn (fst (handleNextTurn cks sks s))) = int ((k + 1) mod N)"
    using assms(4) w(1) by (simp add: ct)
  show "RoundNumber (fst (handleNextTurn cks sks s)) = RoundNumber s + of_nat ((k + 1) div N)"
    using assms(4) by (simp add: rn)
qed

lemma div_add_split: "0 < (N::nat) \<Longrightarrow> (a + b) div N = a div N + (a mod N + b) div N"
proof -
  assume N: "0 < N"
  have "a + b = a div N * N + (a mod N + b)" by simp
  then have "(a + b) div N = (a div N * N + (a mod N + b)) div N" by (rule arg_cong)
  also have "\<dots> = a div N + (a mod N + b) div N"
    using N by (simp only: div_mult_self3 neq0_conv [symmetric] not_False_eq_True)
  finally show ?thesis .
qed

lemma next_turns_counters:
  assumes "next_turns s outs s'" and "length (TurnOrder s) = N" and "N < 2 ^ 63"
    and "sint (CurrentTurn s) = int k" and "k < N"
  shows "TurnOrder s' = TurnOrder s
       \<and> sint (CurrentTurn s') = int ((k + length outs) mod N)
       \<and> RoundNumber s' = RoundNumber s + of_nat ((k + length outs) div N)"
  using assms
proof (induction arbitrary: k rule: next_turns.induct)
  case (next_turns_Nil s)
  then show ?case by simp
next
  case (next_turns_Cons s s1 out outs s2)
  from next_turns_Cons.hyps(1) obtain cks sks
    where h: "handleNextTurn cks sks s = (s1, Ok out)"
    by (rule tool_call_next_turn_Ok)
  then have s1: "s1 = fst (handleNextTurn cks sks s)" by simp
  have N: "0 < N" using next_turns_Cons.prems(4) by simp
  note step = next_turn_step_counters [OF next_turns_Cons.prems, of cks sks, folded s1]
  have order: "TurnOrder s1 = TurnOrder s"
    by (simp add: s1 next_turn_TurnOrder)
  have k1: "(k + 1) mod N < N" using N by simp
  have ih: "TurnOrder s2 = TurnOrder s1
       \<and> sint (CurrentTurn s2) = int (((k + 1) mod N + length outs) mod N)
       \<and> RoundNumber s2 = RoundNumber s1 + of_nat (((k + 1) mod N + length outs) div N)"
    using next_turns_Cons.prems(1,2) order step(3) k1
    by (intro next_turns_Cons.IH) simp_all
  have m: "((k + 1) mod N + length outs) mod N = (k + length (out # outs)) mod N"
    by (simp add: mod_add_left_eq)
  have d: "(k + length (out # outs)) div N
      = (k + 1) div N + ((k + 1) mod N + length outs) div N"
    using div_add_split [OF N, of "k + 1" "length outs"] by simp
  have "RoundNumber s2 = RoundNumber s + of_nat ((k + length (out # outs)) div N)"
    unfolding d using ih step(4) by (simp only: of_nat_add add.assoc)
  then show ?case
    using ih order m by (simp only:)
qed

lemma index_slice_in_range:
  "0 \<le> sint i \<Longrightarrow> sint i < int (length xs) \<Longrightarrow> \<exists>x \<in> set xs. index_slice xs i = Some x"
  by (auto simp: index_slice_def)

lemma fresh_next_turn:
  assumes "fresh_encounter s"
  shows "\<exists>out s'. tool_call s NextTurn s' (Ok (NextTurnOut out)) \<and> fresh_encounter s'"
proof -
  define N where "N = length (TurnOrder s)"
  define k where "k = nat (sint (CurrentTurn s))"
  have N: "length (TurnOrder s) = N" "N < 2 ^ 63" and k: "sint (CurrentTurn s) = int k" "k < N"
    using assms by (auto simp: fresh_encounter_def N_def k_def)
  let ?h = "handleNextTurn [] (\<lambda>_. []) s"
  note step = next_turn_step_counters [OF N k, of "[]" "\<lambda>_. []"]
  have ct: "0 \<le> sint (CurrentTurn (fst ?h))" "sint (CurrentTurn (fst ?h)) < int (length (TurnOrder s))"
    using step(3) k(2) N(1) by simp_all
  from index_slice_in_range [OF ct]
  obtain x where x: "x \<in> set (TurnOrder s)" "index_slice (TurnOrder s) (CurrentTurn (fst ?h)) = Some x"
    by blast
  then obtain ex where ex: "Entities s x = Some ex"
    using assms by (auto simp: fresh_encounter_def)
  show ?thesis
  proof (cases rule: next_turn_cases [of "[]" "\<lambda>_. []" s])
    case panic
    then show ?thesis using x ex by auto
  next
    case (ok cid cur conds effs)
    have cur: "Conditions cur = Map.empty"
      using ok(2) assms by (auto simp: fresh_encounter_def)
    have conds: "conds = Map.empty"
      using ok(3) cur by simp
    have ents: "\<forall>k e. Entities (fst ?h) k = Some e \<longrightarrow> Conditions e = Map.empty"
      using assms ok(4) conds by (auto simp: fresh_encounter_def)
    have dom: "dom (Entities (fst ?h)) = dom (Entities s)"
      using ok(2,4) by auto
    have fresh: "fresh_encounter (fst ?h)"
      using assms ct ents dom by (simp add: fresh_encounter_def next_turn_TurnOrder)
    have h: "?h = (fst ?h, Ok \<lparr>CurrentEntityID = cid, CurrentEntityName = Name cur,
             RoundNumber_out = RoundNumber (fst ?h), Effects = effs,
             CombatStatus = (\<lambda>id. case Entities (fst ?h) id of
                                       None \<Rightarrow> None
                                     | Some e \<Rightarrow> Some (status_line e []))\<rparr>)"
      using ok(5) by (simp add: prod_eq_iff)
    have orders: "next_turn_orders [] (\<lambda>_. []) s"
      unfolding next_turn_orders_def
      by (subst h) (use ok(2) cur ents in \<open>simp add: range_order_def\<close>)
    have "tool_call s NextTurn (fst ?h) (map_outcome NextTurnOut (Ok \<lparr>CurrentEntityID = cid,
             CurrentEntityName = Name cur,
             RoundNumber_out = RoundNumber (fst ?h), Effects = effs,
             CombatStatus = (\<lambda>id. case Entities (fst ?h) id of
                                       None \<Rightarrow> None
                                     | Some e \<Rightarrow> Some (status_line e []))\<rparr>))"
      using orders h by (rule call_next_turn)
    then show ?thesis using fresh by auto
  qed
qed

lemma fresh_next_turns:
  "fresh_encounter s \<Longrightarrow> \<exists>outs s'. next_turns s outs s' \<and> length outs = n"
proof (induction n arbitrary: s)
  case 0
  have "next_turns s [] s" by (rule next_turns_Nil)
  then show ?case by auto
next
  case (Suc n)
  from fresh_next_turn [OF Suc.prems]
  obtain out s1 where s1: "tool_call s NextTurn s1 (Ok (NextTurnOut out))" "fresh_encounter s1"
    by blast
  from Suc.IH [OF s1(2)] obtain outs s' where "next_turns s1 outs s'" "length outs = n"
    by blast
  then have "next_turns s (out # outs) s'" "length (out # outs) = Suc n"
    using s1(1) by (auto intro: next_turns_Cons)
  then show ?case by blast
qed

lemma start_combat_fresh:
  assumes "tool_call s (StartCombat es) s0 r" and "es \<noteq> []" and "length es < 2 ^ 63"
  shows "RoundNumber s0 = 1" and "CurrentTurn s0 = 0"
    and "length (TurnOrder s0) = card (set (map ID_init es))"
    and "0 < length (TurnOrder s0)" and "length (TurnOrder s0) \<le> length es"
    and "fresh_encounter s0"
proof -
  from assms(1) obtain srt keys r' where c: "sort_Slice_contract srt"
    and k: "range_order (create_entities Map.empty es) keys"
    and h: "handleStartCombat keys srt s es = (s0, r')"
    by (rule tool_call_StartCombatE)
  note st = start_combat_state [OF h] and ord = start_combat_order [OF c k h]
  show "RoundNumber s0 = 1" "CurrentTurn s0 = 0" by (fact st)+
  show len: "length (TurnOrder s0) = card (set (map ID_init es))" by (fact ord(4))
  show pos: "0 < length (TurnOrder s0)"
    using assms(2) by (simp add: len card_gt_0_iff)
  show le: "length (TurnOrder s0) \<le> length es"
    unfolding len by (metis card_length length_map)
  have "\<forall>k e. Entities s0 k = Some e \<longrightarrow> Conditions e = Map.empty"
  proof (intro allI impI)
    fix k e assume "Entities s0 k = Some e"
    then have "\<exists>i \<in> set es. e = new_entity i \<and> k = ID_init i"
      using create_entities_new [of Map.empty es k e] by (simp add: st(1))
    then show "Conditions e = Map.empty"
      by (auto simp: new_entity_fields)
  qed
  then show "fresh_encounter s0"
    using pos le assms(3) ord(3) by (simp add: fresh_encounter_def st(3))
qed

lemma example_start_call:
  "\<exists>r. tool_call s (StartCombat [dragon_init, fighter_init]) example_state r"
proof -
  have k: "range_order (create_entities Map.empty [dragon_init, fighter_init]) [''B'', ''A'']"
    unfolding example_entities by (auto simp: range_order_def)
  have "handleStartCombat [''B'', ''A''] insertion_sort s [dragon_init, fighter_init]
      = (example_state,
         snd (handleStartCombat [''B'', ''A''] insertion_sort s [dragon_init, fighter_init]))"
    using example_start [of s] by (simp add: prod_eq_iff)
  with insertion_sort_contract k
  have "tool_call s (StartCombat [dragon_init, fighter_init]) example_state
      (map_outcome StartCombatOut
        (snd (handleStartCombat [''B'', ''A''] insertion_sort s [dragon_init, fighter_init])))"
    by (rule call_start_combat)
  then show ?thesis by blast
qed

lemma map_filter_pairs:
  "\<forall>p \<in> set ps. \<exists>e. m (id_p p) = Some e \<and> init_p p = InitiativeRoll e \<Longrightarrow>
   List.map_filter (\<lambda>k. map_option InitiativeRoll (m k)) (map id_p ps) = map init_p ps"
  by (induction ps) (auto simp: List.map_filter_simps)

lemma start_combat_initiatives:
  assumes "sort_Slice_contract srt" and "handleStartCombat keys srt s es = (s', r)"
  shows "turn_initiatives s'
      = map init_p (srt (collect_pairs (create_entities Map.empty es) keys))"
    and "sorted_wrt (\<lambda>a b. b \<le>s a) (turn_initiatives s')"
proof -
  let ?ents = "create_entities Map.empty es"
  let ?ps = "srt (collect_pairs ?ents keys)"
  have c: "mset ?ps = mset (collect_pairs ?ents keys)"
    "sorted_wrt (\<lambda>p q. \<not> less_pair q p) ?ps"
    using assms(1) by (simp_all add: sort_Slice_contract_def)
  have "set ?ps = set (collect_pairs ?ents keys)"
    using c(1) by (rule mset_eq_setD)
  then have "\<forall>p \<in> set ?ps. \<exists>e. ?ents (id_p p) = Some e \<and> init_p p = InitiativeRoll e"
    using collect_pairs_init [of _ ?ents keys] by blast
  then show eq: "turn_initiatives s' = map init_p ?ps"
    unfolding turn_initiatives_def start_combat_state(1,2) [OF assms(2)]
    by (rule map_filter_pairs)
  have "sorted_wrt (\<lambda>a b. b \<le>s a) (map init_p ?ps)"
    unfolding sorted_wrt_map
    using c(2) by (rule sorted_wrt_mono_rel [rotated]) (auto simp: less_pair_def signed_simps)
  then show "sorted_wrt (\<lambda>a b. b \<le>s a) (turn_initiatives s')"
    by (simp add: eq)
qed

lemma sorted_strict_iff_distinct:
  "sorted_wrt (\<lambda>a b. b \<le>s a) (xs :: go_int list) \<Longrightarrow>
   sorted_wrt (\<lambda>a b. b <s a) xs \<longleftrightarrow> distinct xs"
proof (induction xs)
  case Nil
  then show ?case by simp
next
  case (Cons a xs)
  have "(\<forall>x \<in> set xs. x <s a) \<longleftrightarrow> a \<notin> set xs"
  proof
    assume "\<forall>x \<in> set xs. x <s a"
    then show "a \<notin> set xs" by (auto simp: signed_simps)
  next
    assume a: "a \<notin> set xs"
    show "\<forall>x \<in> set xs. x <s a"
    proof
      fix x assume x: "x \<in> set xs"
      then have "sint x \<le> sint a" using Cons.prems by (simp add: signed_simps)
      moreover have "sint x \<noteq> sint a" using a x signed_word_eqI [of x a] by auto
      ultimately show "x <s a" by (simp add: signed_simps)
    qed
  qed
  then show ?case using Cons by simp
qed

lemma twins_entities:
  "create_entities Map.empty twins
     = [''g1'' \<mapsto> new_entity (goblin_init ''g1''), ''g2'' \<mapsto> new_entity (goblin_init ''g2'')]"
  by (simp add: twins_def goblin_init_def)

lemma twins_range_order:
  "range_order (create_entities Map.empty twins) [''g1'', ''g2'']"
  "range_order (create_entities Map.empty twins) [''g2'', ''g1'']"
  unfolding twins_entities by (auto simp: range_order_def)

lemma twins_start:
  "TurnOrder (fst (handleStartCombat [''g1'', ''g2''] insertion_sort s twins)) = [''g1'', ''g2'']"
  "TurnOrder (fst (handleStartCombat [''g2'', ''g1''] insertion_sort s twins)) = [''g2'', ''g1'']"
  "Entities (fst (handleStartCombat ks insertion_sort s twins))
     = [''g1'' \<mapsto> new_entity (goblin_init ''g1''), ''g2'' \<mapsto> new_entity (goblin_init ''g2'')]"
  unfolding handleStartCombat_def twins_entities
  by (simp_all add: Let_def less_pair_def signed_simps new_entity_fields goblin_init_def)

lemma hp_unchanged_bounds: "hp_unchanged s s' \<Longrightarrow> hp_bounds s \<Longrightarrow> hp_bounds s'"
  unfolding hp_unchanged_def hp_bounds_def by metis

lemma next_turn_hp: "handleNextTurn cks sks s = (s', r) \<Longrightarrow> hp_unchanged s s'"
proof (cases rule: next_turn_cases [of cks sks s])
  case panic
  assume "handleNextTurn cks sks s = (s', r)"
  then show ?thesis using panic by (auto simp: hp_unchanged_def)
next
  case (ok cid cur conds effs)
  assume "handleNextTurn cks sks s = (s', r)"
  then show ?thesis using ok(2,4) by (auto simp: hp_unchanged_def)
qed

lemma add_condition_hp: "handleAddCondition s i = (s', r) \<Longrightarrow> hp_unchanged s s'"
  by (auto simp: handleAddCondition_def hp_unchanged_def Let_def split: option.splits if_splits)

lemma track_resource_hp: "handleTrackResource s i = (s', r) \<Longrightarrow> hp_unchanged s s'"
  by (auto simp: handleTrackResource_def hp_unchanged_def Let_def split: option.splits if_splits)

lemma saving_throw_hp: "handleSavingThrow n s i = (s', r) \<Longrightarrow> hp_unchanged s s'"
  by (auto simp: handleSavingThrow_def hp_unchanged_def Let_def split: option.splits if_splits)

lemma legendary_action_hp: "handleLegendaryAction s i = (s', r) \<Longrightarrow> hp_unchanged s s'"
  by (auto simp: handleLegendaryAction_def hp_unchanged_def Let_def split: option.splits if_splits)


lemma go_div_2_nonneg: "0 \<le> sint d \<Longrightarrow> 0 \<le> sint (go_div d 2) \<and> sint (go_div d 2) \<le> sint d"
  by (simp add: sint_go_div_2 sdiv_2_nonneg)

lemma apply_damage_hp:
  assumes "handleApplyDamage s i = (s', r)" and "Entities s' k = Some e'"
  shows "\<exists>e. Entities s k = Some e \<and> MaxHP e' = MaxHP e
           \<and> (k \<noteq> TargetID i \<longrightarrow> CurrentHP e' = CurrentHP e)
           \<and> (k = TargetID i \<longrightarrow> 0 \<le>s CurrentHP e'
                \<and> (0 \<le>s Damage i \<and> 0 \<le>s CurrentHP e \<longrightarrow> CurrentHP e' \<le>s CurrentHP e))"
proof (cases "Entities s (TargetID i)")
  case None
  then show ?thesis using assms by (auto simp: handleApplyDamage_def)
next
  case (Some t)
  define f where "f = (if Resources t ''resistances'' \<noteq> None then go_div (Damage i) 2 else Damage i)"
  define hp where "hp = (if CurrentHP t - f <s 0 then 0 else CurrentHP t - f)"
  have s': "Entities s' = (Entities s)(TargetID i \<mapsto> t\<lparr>CurrentHP := hp\<rparr>)"
    using assms(1) Some by (auto simp: handleApplyDamage_def Let_def f_def hp_def)
  have nonneg: "0 \<le>s hp" by (simp add: hp_def signed_simps)
  have le: "hp \<le>s CurrentHP t" if d: "0 \<le>s Damage i" and c: "0 \<le>s CurrentHP t"
  proof -
    have f: "0 \<le> sint f" "sint f \<le> sint (Damage i)"
      using d go_div_2_nonneg [of "Damage i"] by (auto simp: f_def signed_simps)
    have "sint (CurrentHP t - f) = sint (CurrentHP t) - sint f"
      using f c sint_go_bounds [of "CurrentHP t"] sint_go_bounds [of f]
      by (intro sint_sub_exact) (auto simp: signed_simps)
    then show ?thesis using f c by (auto simp: hp_def signed_simps)
  qed
  show ?thesis
  proof (cases "k = TargetID i")
    case True
    then show ?thesis using assms(2) Some s' nonneg le by auto
  next
    case False
    then show ?thesis using assms(2) s' by auto
  qed
qed

lemma apply_healing_hp:
  assumes "handleApplyHealing s i = (s', r)" and "Entities s' k = Some e'"
  shows "\<exists>e. Entities s k = Some e \<and> MaxHP e' = MaxHP e
           \<and> (k \<noteq> TargetID_heal i \<longrightarrow> CurrentHP e' = CurrentHP e)
           \<and> (k = TargetID_heal i \<longrightarrow> CurrentHP e' \<le>s MaxHP e'
                \<and> (0 \<le>s Amount i \<and> sint (CurrentHP e) + sint (Amount i) < 2 ^ 63
                     \<and> 0 \<le>s CurrentHP e \<and> CurrentHP e \<le>s MaxHP e \<longrightarrow> 0 \<le>s CurrentHP e'))"
proof (cases "Entities s (TargetID_heal i)")
  case None
  then show ?thesis using assms by (auto simp: handleApplyHealing_def)
next
  case (Some t)
  define hp where "hp = (if MaxHP t <s CurrentHP t + Amount i then MaxHP t else CurrentHP t + Amount i)"
  have s': "Entities s' = (Entities s)(TargetID_heal i \<mapsto> t\<lparr>CurrentHP := hp\<rparr>)"
    using assms(1) Some by (auto simp: handleApplyHealing_def Let_def hp_def)
  have le: "hp \<le>s MaxHP t" by (auto simp: hp_def signed_simps)
  have nonneg: "0 \<le>s hp"
    if a: "0 \<le>s Amount i" and o: "sint (CurrentHP t) + sint (Amount i) < 2 ^ 63"
      and c: "0 \<le>s CurrentHP t" "CurrentHP t \<le>s MaxHP t"
  proof -
    have "sint (CurrentHP t + Amount i) = sint (CurrentHP t) + sint (Amount i)"
      using a o c by (intro sint_add_exact) (auto simp: signed_simps)
    then show ?thesis using a c by (auto simp: hp_def signed_simps)
  qed
  show ?thesis
  proof (cases "k = TargetID_heal i")
    case True
    then show ?thesis using assms(2) Some s' nonneg le by auto
  next
    case False
    then show ?thesis using assms(2) s' by auto
  qed
qed

lemma start_combat_hp:
  assumes "handleStartCombat keys srt s es = (s', r)" and "\<forall>i \<in> set es. 0 \<le>s HP i"
  shows "hp_bounds s'"
  unfolding hp_bounds_def
proof (intro allI impI)
  fix k e assume "Entities s' k = Some e"
  then have "\<exists>i \<in> set es. e = new_entity i \<and> k = ID_init i"
    using create_entities_new [of Map.empty es k e] by (simp add: start_combat_state(1) [OF assms(1)])
  then show "0 \<le>s CurrentHP e \<and> CurrentHP e \<le>s MaxHP e"
    using assms(2) by (auto simp: new_entity_fields signed_simps)
qed


lemma hp_bounds_violated:
  "Entities s k = Some e \<Longrightarrow> \<not> (0 \<le>s CurrentHP e \<and> CurrentHP e \<le>s MaxHP e) \<Longrightarrow> \<not> hp_bounds s"
  unfolding hp_bounds_def by blast

lemma example_hp_bounds: "hp_bounds example_state"
  by (auto simp: hp_bounds_def example_state_def dragon_simps fighter_simps signed_simps
        split: if_splits)

lemma process_conditions_char:
  "distinct cks \<Longrightarrow>
   process_conditions cks conds effs =
     (\<lambda>c. if c \<in> set cks then condition_after (conds c) else conds c,
      effs @ map ended_message (filter (\<lambda>c. condition_ends (conds c)) cks))"
proof (induction cks arbitrary: conds effs)
  case Nil
  then show ?case by simp
next
  case (Cons k cks)
  have k: "k \<notin> set cks" and d: "distinct cks" using Cons.prems by simp_all
  define conds' where "conds' = (\<lambda>c. if c = k then condition_after (conds k) else conds c)"
  define effs' where "effs' = (if condition_ends (conds k) then effs @ [ended_message k] else effs)"
  have upd: "conds(k := None) = (\<lambda>c. if c = k then None else conds c)"
    "\<And>v. conds(k \<mapsto> v) = (\<lambda>c. if c = k then Some v else conds c)"
    by (simp_all add: fun_eq_iff)
  have same: "(\<lambda>c. if c = k then conds k else conds c) = conds"
    by (simp add: fun_eq_iff)
  have step: "process_conditions (k # cks) conds effs = process_conditions cks conds' effs'"
  proof (cases "conds k")
    case None
    then have "conds' = conds" "effs' = effs"
      by (auto simp: conds'_def effs'_def fun_eq_iff)
    then show ?thesis using None by simp
  next
    case (Some duration)
    show ?thesis
    proof (cases "0 <s duration")
      case False
      then have "conds' = conds" "effs' = effs"
        using Some by (auto simp: conds'_def effs'_def fun_eq_iff)
      then show ?thesis using Some False by simp
    next
      case True
      show ?thesis
      proof (cases "duration - 1 = 0")
        case z: True
        then have "conds' = conds(k := None)" "effs' = effs @ [ended_message k]"
          using Some True by (auto simp: conds'_def effs'_def fun_eq_iff)
        then show ?thesis using Some True z by (simp add: ended_message_def)
      next
        case nz: False
        then have "conds' = conds(k \<mapsto> duration - 1)" "effs' = effs"
          using Some True by (auto simp: conds'_def effs'_def fun_eq_iff)
        then show ?thesis using Some True nz by simp
      qed
    qed
  qed
  have rest: "\<And>c. c \<in> set cks \<Longrightarrow> conds' c = conds c"
    using k by (auto simp: conds'_def)
  then have f: "filter (\<lambda>c. condition_ends (conds' c)) cks
      = filter (\<lambda>c. condition_ends (conds c)) cks"
    by (intro filter_cong) auto
  have m: "(\<lambda>c. if c \<in> set cks then condition_after (conds' c) else conds' c)
      = (\<lambda>c. if c \<in> set (k # cks) then condition_after (conds c) else conds c)"
    using k rest by (auto simp: fun_eq_iff conds'_def)
  have e: "effs' @ map ended_message (filter (\<lambda>c. condition_ends (conds c)) cks)
      = effs @ map ended_message (filter (\<lambda>c. condition_ends (conds c)) (k # cks))"
    by (simp add: effs'_def)
  show ?case
    unfolding step Cons.IH [OF d] f m e ..
qed

lemma process_conditions_order:
  assumes "range_order conds cks1" and "range_order conds cks2"
  shows "fst (process_conditions cks1 conds effs) = fst (process_conditions cks2 conds effs)"
    and "mset (snd (process_conditions cks1 conds effs))
       = mset (snd (process_conditions cks2 conds effs))"
proof -
  have d: "distinct cks1" "distinct cks2" and s: "set cks1 = set cks2"
    using assms by (simp_all add: range_order_def)
  then have m: "mset cks1 = mset cks2"
    by (simp add: set_eq_iff_mset_eq_distinct)
  show "fst (process_conditions cks1 conds effs) = fst (process_conditions cks2 conds effs)"
    by (simp add: process_conditions_char d s)
  have "mset (filter (\<lambda>c. condition_ends (conds c)) cks1)
      = mset (filter (\<lambda>c. condition_ends (conds c)) cks2)"
    using m by (simp only: mset_filter)
  then have "mset (map ended_message (filter (\<lambda>c. condition_ends (conds c)) cks1))
      = mset (map ended_message (filter (\<lambda>c. condition_ends (conds c)) cks2))"
    by (simp only: mset_map)
  then show "mset (snd (process_conditions cks1 conds effs))
       = mset (snd (process_conditions cks2 conds effs))"
    by (simp add: process_conditions_char d)
qed


lemma next_turn_orders_current:
  assumes "next_turn_orders cks sks s" and "snd (handleNextTurn cks sks s) = Ok out"
    and "CurrentEntityID out = cid" and "Entities s cid = Some cur"
  shows "range_order (Conditions cur) cks"
  using assms by (cases "handleNextTurn cks sks s") (auto simp: next_turn_orders_def)

lemma next_turn_deterministic:
  assumes o1: "next_turn_orders cks1 sks1 s" and h1: "handleNextTurn cks1 sks1 s = (s1, r1)"
    and o2: "next_turn_orders cks2 sks2 s" and h2: "handleNextTurn cks2 sks2 s = (s2, r2)"
  shows "s1 = s2"
    and "r1 = Panic \<longleftrightarrow> r2 = Panic"
    and "r1 = Ok out1 \<Longrightarrow> \<exists>out2. r2 = Ok out2
           \<and> CurrentEntityID out2 = CurrentEntityID out1
           \<and> CurrentEntityName out2 = CurrentEntityName out1
           \<and> RoundNumber_out out2 = RoundNumber_out out1
           \<and> mset (Effects out2) = mset (Effects out1)
           \<and> dom (CombatStatus out2) = dom (CombatStatus out1)"
proof -
  have f1: "s1 = fst (handleNextTurn cks1 sks1 s)" "r1 = snd (handleNextTurn cks1 sks1 s)"
    and f2: "s2 = fst (handleNextTurn cks2 sks2 s)" "r2 = snd (handleNextTurn cks2 sks2 s)"
    using h1 h2 by simp_all
  have ct: "CurrentTurn s1 = CurrentTurn s2" and rn: "RoundNumber s1 = RoundNumber s2"
    and ord: "TurnOrder s1 = TurnOrder s2"
    by (simp_all add: f1 f2 next_turn_CurrentTurn next_turn_RoundNumber next_turn_TurnOrder)
  have "s1 = s2 \<and> (r1 = Panic \<longleftrightarrow> r2 = Panic)
      \<and> (\<forall>out1. r1 = Ok out1 \<longrightarrow> (\<exists>out2. r2 = Ok out2
           \<and> CurrentEntityID out2 = CurrentEntityID out1
           \<and> CurrentEntityName out2 = CurrentEntityName out1
           \<and> RoundNumber_out out2 = RoundNumber_out out1
           \<and> mset (Effects out2) = mset (Effects out1)
           \<and> dom (CombatStatus out2) = dom (CombatStatus out1)))"
  proof (cases rule: next_turn_cases [of cks1 sks1 s])
    case p1: panic
    show ?thesis
    proof (cases rule: next_turn_cases [of cks2 sks2 s])
      case p2: panic
      have "Entities s1 = Entities s2" using p1(2) p2(2) by (simp add: f1 f2)
      then have "s1 = s2" using ct rn ord by (intro CombatState.equality) simp_all
      then show ?thesis using p1(1) p2(1) by (simp add: f1 f2)
    next
      case (ok cid cur conds effs)
      then show ?thesis using p1(3) ct by (auto simp: f1 f2)
    qed
  next
    case k1: (ok cid1 cur1 conds1 effs1)
    show ?thesis
    proof (cases rule: next_turn_cases [of cks2 sks2 s])
      case p2: panic
      then show ?thesis using k1(1,2) ct by (auto simp: f1 f2)
    next
      case k2: (ok cid2 cur2 conds2 effs2)
      have cid: "cid2 = cid1" using k1(1) k2(1) ct by (simp add: f1 f2)
      then have cur: "cur2 = cur1" using k1(2) k2(2) by simp
      have ro1: "range_order (Conditions cur1) cks1"
        using o1 k1(5) _ k1(2) by (rule next_turn_orders_current) simp
      have ro2: "range_order (Conditions cur1) cks2"
        using o2 k2(5) _ k2(2) [unfolded cid cur] by (rule next_turn_orders_current) (simp add: cid)
      note po = process_conditions_order [OF ro1 ro2]
      have conds: "conds1 = conds2" and effs: "mset effs1 = mset effs2"
        using po(1) [of "if IsMonster cur1 \<and> 0 <s MaxLegendaryActions cur1
          then [''Legendary actions reset to '' @ show_int (MaxLegendaryActions cur1)] else []"]
          po(2) [of "if IsMonster cur1 \<and> 0 <s MaxLegendaryActions cur1
          then [''Legendary actions reset to '' @ show_int (MaxLegendaryActions cur1)] else []"]
          k1(3) k2(3) [unfolded cur]
        by simp_all
      have ents: "Entities s1 = Entities s2"
        using k1(4) k2(4) by (simp add: f1 f2 cid cur conds)
      then have st: "s1 = s2" using ct rn ord by (intro CombatState.equality) simp_all
      have d: "dom (\<lambda>id. case Entities s1 id of None \<Rightarrow> None
                              | Some e \<Rightarrow> Some (status_line e (sks1 id)))
          = dom (\<lambda>id. case Entities s2 id of None \<Rightarrow> None
                              | Some e \<Rightarrow> Some (status_line e (sks2 id)))"
        by (auto simp: ents split: option.splits)
      show ?thesis
        using st k1(5) k2(5) cid cur effs d rn by (simp add: f1 f2 [symmetric])
    qed
  qed
  then show "s1 = s2" and "r1 = Panic \<longleftrightarrow> r2 = Panic"
    and "r1 = Ok out1 \<Longrightarrow> \<exists>out2. r2 = Ok out2
           \<and> CurrentEntityID out2 = CurrentEntityID out1
           \<and> CurrentEntityName out2 = CurrentEntityName out1
           \<and> RoundNumber_out out2 = RoundNumber_out out1
           \<and> mset (Effects out2) = mset (Effects out1)
           \<and> dom (CombatStatus out2) = dom (CombatStatus out1)"
    by blast+
qed

lemma desc_sorted_unique:
  "sorted_wrt (\<lambda>a b. b \<le>s a) (xs :: go_int list) \<Longrightarrow> sorted_wrt (\<lambda>a b. b \<le>s a) ys \<Longrightarrow>
   mset xs = mset ys \<Longrightarrow> xs = ys"
proof (induction xs arbitrary: ys)
  case Nil
  then show ?case by simp
next
  case (Cons x xs)
  then obtain y ys' where ys: "ys = y # ys'"
    by (cases ys) auto
  have "x \<in> set ys" "y \<in> set (x # xs)"
    using Cons.prems(3) ys by (metis list.set_intros(1) mset_eq_setD)+
  then have "sint x \<le> sint y" "sint y \<le> sint x"
    using Cons.prems(1,2) ys by (auto simp: signed_simps)
  then have xy: "x = y" using signed_word_eqI [of x y] by simp
  then have "mset xs = mset ys'" using Cons.prems(3) ys by simp
  then have "xs = ys'"
    using Cons.prems(1,2) ys by (intro Cons.IH) simp_all
  then show ?case using xy ys by simp
qed

lemma collect_pairs_map:
  "set ks \<subseteq> dom m \<Longrightarrow>
   collect_pairs m ks = map (\<lambda>k. \<lparr>id_p = k, init_p = InitiativeRoll (the (m k))\<rparr>) ks"
  by (induction ks) (auto split: option.splits)

lemma collect_pairs_order:
  assumes "range_order m ks1" and "range_order m ks2"
  shows "mset (collect_pairs m ks1) = mset (collect_pairs m ks2)"
proof -
  have "mset ks1 = mset ks2"
    using assms set_eq_iff_mset_eq_distinct [of ks1 ks2] by (simp add: range_order_def)
  then have "mset (map (\<lambda>k. \<lparr>id_p = k, init_p = InitiativeRoll (the (m k))\<rparr>) ks1)
      = mset (map (\<lambda>k. \<lparr>id_p = k, init_p = InitiativeRoll (the (m k))\<rparr>) ks2)"
    by (simp only: mset_map)
  then show ?thesis
    using assms by (simp add: range_order_def collect_pairs_map)
qed

lemma start_combat_deterministic:
  assumes c1: "sort_Slice_contract srt1"
    and k1: "range_order (create_entities Map.empty es) keys1"
    and h1: "handleStartCombat keys1 srt1 s es = (s1, r1)"
    and c2: "sort_Slice_contract srt2"
    and k2: "range_order (create_entities Map.empty es) keys2"
    and h2: "handleStartCombat keys2 srt2 s es = (s2, r2)"
  shows "Entities s1 = Entities s2" and "CurrentTurn s1 = CurrentTurn s2"
    and "RoundNumber s1 = RoundNumber s2" and "mset (TurnOrder s1) = mset (TurnOrder s2)"
    and "turn_initiatives s1 = turn_initiatives s2"
    and "distinct (turn_initiatives s1) \<Longrightarrow> s1 = s2 \<and> r1 = r2"
proof -
  let ?ents = "create_entities Map.empty es"
  let ?ps1 = "srt1 (collect_pairs ?ents keys1)"
  let ?ps2 = "srt2 (collect_pairs ?ents keys2)"
  note st1 = start_combat_state [OF h1] and st2 = start_combat_state [OF h2]
  note i1 = start_combat_initiatives [OF c1 h1] and i2 = start_combat_initiatives [OF c2 h2]
  show ents: "Entities s1 = Entities s2" by (simp add: st1(1) st2(1))
  show ct: "CurrentTurn s1 = CurrentTurn s2" by (simp add: st1(3) st2(3))
  show rn: "RoundNumber s1 = RoundNumber s2" by (simp add: st1(4) st2(4))
  have ps: "mset ?ps1 = mset ?ps2"
    using c1 c2 collect_pairs_order [OF k1 k2] by (simp add: sort_Slice_contract_def)
  then have "mset (map id_p ?ps1) = mset (map id_p ?ps2)" by (simp only: mset_map)
  then show "mset (TurnOrder s1) = mset (TurnOrder s2)" by (simp add: st1(2) st2(2))
  have "mset (map init_p ?ps1) = mset (map init_p ?ps2)" using ps by (simp only: mset_map)
  then have "mset (turn_initiatives s1) = mset (turn_initiatives s2)" by (simp add: i1(1) i2(1))
  with i1(2) i2(2) show ini: "turn_initiatives s1 = turn_initiatives s2"
    by (rule desc_sorted_unique)
  show "s1 = s2 \<and> r1 = r2" if d: "distinct (turn_initiatives s1)"
  proof -
    have "inj_on init_p (set ?ps1)"
      using d by (simp add: i1(1) distinct_map)
    moreover have "set ?ps2 = set ?ps1" using ps by (metis mset_eq_setD)
    ultimately have "inj_on init_p (set ?ps1 \<union> set ?ps2)" by simp
    moreover have "map init_p ?ps1 = map init_p ?ps2" using ini by (simp add: i1(1) i2(1))
    ultimately have "?ps1 = ?ps2" by (simp add: inj_on_map_eq_map)
    then have ord: "TurnOrder s1 = TurnOrder s2" by (simp add: st1(2) st2(2))
    have "s1 = s2" using ents ct rn ord by (intro CombatState.equality) simp_all
    moreover have "r1 = r2"
      using h1 h2 ord by (auto simp: handleStartCombat_def Let_def)
    ultimately show ?thesis by simp
  qed
qed

lemma example_turn_initiatives: "turn_initiatives example_state = [15, 10]"
  by (simp add: turn_initiatives_def example_state_def List.map_filter_simps dragon_def
        fighter_def new_entity_fields dragon_init_def fighter_init_def)

lemma two_conditions_next_turn:
  "sks ''B'' = cl \<Longrightarrow>
   map_outcome (\<lambda>out. CombatStatus out ''B'')
     (snd (handleNextTurn [''prone'', ''stunned''] sks two_conditions_state))
     = Ok (Some (status_line (fighter\<lparr>Conditions := [''prone'' \<mapsto> 0, ''stunned'' \<mapsto> 0]\<rparr>) cl))"
  "Entities (fst (handleNextTurn [''prone'', ''stunned''] sks two_conditions_state))
     = Entities two_conditions_state"
  "map_outcome CurrentEntityID
     (snd (handleNextTurn [''prone'', ''stunned''] sks two_conditions_state)) = Ok ''B''"
  by (simp_all add: two_conditions_state_def handleNextTurn_def Let_def len_def index_slice_def
        signed_simps example_state_def fighter_simps fun_eq_iff)

lemma two_conditions_entities:
  "Entities two_conditions_state k = Some e \<Longrightarrow>
     (k = ''B'' \<and> Conditions e = [''prone'' \<mapsto> 0, ''stunned'' \<mapsto> 0])
   \<or> (k = ''A'' \<and> Conditions e = Map.empty)"
  by (cases "k = ''B''"; cases "k = ''A''")
     (auto simp add: two_conditions_state_def example_state_def dragon_simps)

lemma two_conditions_dom:
  "dom [''prone'' \<mapsto> (0::go_int), ''stunned'' \<mapsto> 0] = {''prone'', ''stunned''}"
  by (simp add: insert_commute)

lemma two_conditions_orders:
  assumes "distinct cl" and "set cl = {''prone'', ''stunned''}"
  shows "next_turn_orders [''prone'', ''stunned''] (\<lambda>k. if k = ''B'' then cl else [])
           two_conditions_state"
proof -
  let ?sks = "\<lambda>k. if k = ''B'' then cl else []"
  let ?h = "handleNextTurn [''prone'', ''stunned''] ?sks two_conditions_state"
  obtain s' r where h: "?h = (s', r)" by (cases ?h)
  have ents: "Entities s' = Entities two_conditions_state"
    using two_conditions_next_turn(2) [of ?sks] h by simp
  have "map_outcome CurrentEntityID r = Ok ''B''"
    using two_conditions_next_turn(3) [of ?sks] h by simp
  then obtain out where r: "r = Ok out" and out: "CurrentEntityID out = ''B''"
    by (cases r) auto
  have cur: "range_order (Conditions current) [''prone'', ''stunned'']"
    if "Entities two_conditions_state ''B'' = Some current" for current
  proof -
    from two_conditions_entities [OF that]
    have "Conditions current = [''prone'' \<mapsto> 0, ''stunned'' \<mapsto> 0]" by simp
    then show ?thesis
      unfolding range_order_def by (simp only: two_conditions_dom) simp
  qed
  have all: "range_order (Conditions e) (?sks k)" if "Entities two_conditions_state k = Some e" for k e
  proof -
    from two_conditions_entities [OF that] show ?thesis
    proof
      assume "k = ''B'' \<and> Conditions e = [''prone'' \<mapsto> 0, ''stunned'' \<mapsto> 0]"
      then show ?thesis
        unfolding range_order_def using assms by (simp only: two_conditions_dom) simp
    next
      assume "k = ''A'' \<and> Conditions e = Map.empty"
      then show ?thesis by (simp add: range_order_def)
    qed
  qed
  show ?thesis
    unfolding next_turn_orders_def h r using out cur all by (simp add: ents)
qed

lemma status_line_text:
  "status_line e cl =
     Name e @ '': '' @ show_int (CurrentHP e) @ ''/'' @ show_int (MaxHP e) @ '' HP''
       @ (if cl = [] then [] else '' [['' @ join_space cl @ '']]'')"
  by (simp add: status_line_def show_strings_def Let_def)

lemma space_append: "(@) '' '' = (#) CHR '' ''"
  by (rule ext) simp

lemma join_space_Cons: "join_space (c # cs) = c @ concat (map (\<lambda>x. '' '' @ x) cs)"
  by (induction cs arbitrary: c) simp_all

lemma join_space_split:
  "join_space (before @ c # after)
     = concat (map (\<lambda>x. x @ '' '') before) @ c @ concat (map (\<lambda>x. '' '' @ x) after)"
proof (induction before)
  case Nil
  show ?case by (simp add: join_space_Cons)
next
  case (Cons b before)
  obtain y ys where "before @ c # after = y # ys" by (cases "before @ c # after") simp_all
  then have "join_space (b # before @ c # after) = b @ '' '' @ join_space (before @ c # after)"
    by simp
  then show ?case using Cons by simp
qed

lemma next_turn_keeps_entity:
  assumes "handleNextTurn cks sks s = (s', r)" and "Entities s tid = Some e"
  shows "\<exists>e'. Entities s' tid = Some e' \<and> Name e' = Name e \<and> CurrentHP e' = CurrentHP e
           \<and> MaxHP e' = MaxHP e"
proof (cases rule: next_turn_cases [of cks sks s])
  case panic
  then show ?thesis using assms by simp
next
  case (ok cid cur conds effs)
  then show ?thesis using assms by (cases "tid = cid") auto
qed

lemma next_turns_status_line:
  assumes "next_turns s outs s'" and "Entities s tid = Some e"
    and "Conditions e c = Some d" and "\<not> 0 <s d"
  shows "\<forall>out \<in> set outs. \<exists>before after. distinct (before @ c # after)
           \<and> CombatStatus out tid
               = Some (Name e @ '': '' @ show_int (CurrentHP e) @ ''/'' @ show_int (MaxHP e)
                   @ '' HP [['' @ concat (map (\<lambda>x. x @ '' '') before) @ c
                   @ concat (map (\<lambda>x. '' '' @ x) after) @ '']]'')"
  using assms
proof (induction arbitrary: e rule: next_turns.induct)
  case (next_turns_Nil s)
  then show ?case by simp
next
  case (next_turns_Cons s s' out outs s'')
  from next_turns_Cons.hyps(1) obtain cks sks
    where h: "handleNextTurn cks sks s = (s', Ok out)" and o: "next_turn_orders cks sks s"
    by (rule tool_call_next_turn_Ok)
  from next_turn_keeps_condition [OF h next_turns_Cons.prems]
  obtain e' where e': "Entities s' tid = Some e'" "Conditions e' c = Some d" by blast
  from next_turn_keeps_entity [OF h next_turns_Cons.prems(1)] e'(1)
  have same: "Name e' = Name e" "CurrentHP e' = CurrentHP e" "MaxHP e' = MaxHP e" by auto
  have line: "CombatStatus out tid = Some (status_line e' (sks tid))"
    and ro: "range_order (Conditions e') (sks tid)"
    using next_turn_status [OF h o e'(1)] by simp_all
  have "c \<in> set (sks tid)" using ro e'(2) by (auto simp: range_order_def)
  then obtain before after where sp: "sks tid = before @ c # after"
    by (auto simp: in_set_conv_decomp)
  have d: "distinct (before @ c # after)" using ro sp by (simp add: range_order_def)
  have "CombatStatus out tid
      = Some (Name e @ '': '' @ show_int (CurrentHP e) @ ''/'' @ show_int (MaxHP e)
                   @ '' HP [['' @ concat (map (\<lambda>x. x @ '' '') before) @ c
                   @ concat (map (\<lambda>x. '' '' @ x) after) @ '']]'')"
    unfolding line status_line_text sp join_space_split same by (simp add: space_append)
  with d have here: "\<exists>before after. distinct (before @ c # after)
           \<and> CombatStatus out tid
               = Some (Name e @ '': '' @ show_int (CurrentHP e) @ ''/'' @ show_int (MaxHP e)
                   @ '' HP [['' @ concat (map (\<lambda>x. x @ '' '') before) @ c
                   @ concat (map (\<lambda>x. '' '' @ x) after) @ '']]'')"
    by blast
  have rest: "\<forall>out \<in> set outs. \<exists>before after. distinct (before @ c # after)
           \<and> CombatStatus out tid
               = Some (Name e @ '': '' @ show_int (CurrentHP e) @ ''/'' @ show_int (MaxHP e)
                   @ '' HP [['' @ concat (map (\<lambda>x. x @ '' '') before) @ c
                   @ concat (map (\<lambda>x. '' '' @ x) after) @ '']]'')"
    using next_turns_Cons.IH [OF e' next_turns_Cons.prems(3)] unfolding same .
  show ?case using here rest by simp
qed

lemma show_int_30: "show_int 30 = ''30''"
  by code_simp

lemma next_turn_status_None:
  assumes "handleNextTurn cks sks s = (s', Ok out)" and "Entities s' tid = None"
  shows "CombatStatus out tid = None"
proof (cases rule: next_turn_cases [of cks sks s])
  case panic
  then show ?thesis using assms(1) by simp
next
  case (ok cid cur conds effs)
  then show ?thesis using assms by simp
qed

lemma range_order_single:
  assumes "range_order m cl1" and "range_order m cl2" and "card (dom m) \<le> 1"
  shows "cl1 = cl2"
proof -
  have d: "distinct cl1" "distinct cl2" and s: "set cl1 = dom m" "set cl2 = dom m"
    using assms(1,2) by (simp_all add: range_order_def)
  have "length cl1 \<le> 1" "length cl2 \<le> 1"
    using assms(3) distinct_card [OF d(1)] distinct_card [OF d(2)] s by simp_all
  then show ?thesis
    using s by (cases cl1; cases cl2) auto
qed

lemma next_turn_status_agree:
  assumes o1: "next_turn_orders cks1 sks1 s" and h1: "handleNextTurn cks1 sks1 s = (s', Ok out1)"
    and o2: "next_turn_orders cks2 sks2 s" and h2: "handleNextTurn cks2 sks2 s = (s', Ok out2)"
  shows "case Entities s' tid of
           None \<Rightarrow> CombatStatus out1 tid = None \<and> CombatStatus out2 tid = None
         | Some e \<Rightarrow>
             (\<exists>cl1 cl2. distinct cl1 \<and> set cl1 = dom (Conditions e)
                \<and> distinct cl2 \<and> set cl2 = dom (Conditions e)
                \<and> CombatStatus out1 tid
                    = Some (Name e @ '': '' @ show_int (CurrentHP e) @ ''/''
                        @ show_int (MaxHP e) @ '' HP''
                        @ (if cl1 = [] then [] else '' [['' @ join_space cl1 @ '']]''))
                \<and> CombatStatus out2 tid
                    = Some (Name e @ '': '' @ show_int (CurrentHP e) @ ''/''
                        @ show_int (MaxHP e) @ '' HP''
                        @ (if cl2 = [] then [] else '' [['' @ join_space cl2 @ '']]'')))
             \<and> (card (dom (Conditions e)) \<le> 1
                  \<longrightarrow> CombatStatus out2 tid = CombatStatus out1 tid)"
proof (cases "Entities s' tid")
  case None
  then show ?thesis
    using next_turn_status_None [OF h1 None] next_turn_status_None [OF h2 None] by simp
next
  case (Some e)
  note a = next_turn_status [OF h1 o1 Some] and b = next_turn_status [OF h2 o2 Some]
  have l1: "CombatStatus out1 tid
      = Some (Name e @ '': '' @ show_int (CurrentHP e) @ ''/''
                        @ show_int (MaxHP e) @ '' HP''
                        @ (if sks1 tid = [] then [] else '' [['' @ join_space (sks1 tid) @ '']]''))"
    unfolding a(1) status_line_text ..
  have l2: "CombatStatus out2 tid
      = Some (Name e @ '': '' @ show_int (CurrentHP e) @ ''/''
                        @ show_int (MaxHP e) @ '' HP''
                        @ (if sks2 tid = [] then [] else '' [['' @ join_space (sks2 tid) @ '']]''))"
    unfolding b(1) status_line_text ..
  have r: "distinct (sks1 tid)" "set (sks1 tid) = dom (Conditions e)"
    "distinct (sks2 tid)" "set (sks2 tid) = dom (Conditions e)"
    using a(2) b(2) by (simp_all add: range_order_def)
  have ex: "\<exists>cl1 cl2. distinct cl1 \<and> set cl1 = dom (Conditions e)
                \<and> distinct cl2 \<and> set cl2 = dom (Conditions e)
                \<and> CombatStatus out1 tid
                    = Some (Name e @ '': '' @ show_int (CurrentHP e) @ ''/''
                        @ show_int (MaxHP e) @ '' HP''
                        @ (if cl1 = [] then [] else '' [['' @ join_space cl1 @ '']]''))
                \<and> CombatStatus out2 tid
                    = Some (Name e @ '': '' @ show_int (CurrentHP e) @ ''/''
                        @ show_int (MaxHP e) @ '' HP''
                        @ (if cl2 = [] then [] else '' [['' @ join_space cl2 @ '']]''))"
    using r l1 l2 by blast
  have eq: "CombatStatus out2 tid = CombatStatus out1 tid" if "card (dom (Conditions e)) \<le> 1"
    using range_order_single [OF a(2) b(2) that] a(1) b(1) by simp
  show ?thesis
    unfolding Some using ex eq by simp
qed

lemma expiring_effects:
  "map_outcome Effects (snd (handleNextTurn [''prone'', ''stunned''] sks expiring_state))
     = Ok [''Condition '' @ [CHR 0x27] @ ''prone'' @ [CHR 0x27] @ '' ended'',
           ''Condition '' @ [CHR 0x27] @ ''stunned'' @ [CHR 0x27] @ '' ended'']"
  "map_outcome Effects (snd (handleNextTurn [''stunned'', ''prone''] sks expiring_state))
     = Ok [''Condition '' @ [CHR 0x27] @ ''stunned'' @ [CHR 0x27] @ '' ended'',
           ''Condition '' @ [CHR 0x27] @ ''prone'' @ [CHR 0x27] @ '' ended'']"
  "map_outcome CurrentEntityID
     (snd (handleNextTurn [''prone'', ''stunned''] sks expiring_state)) = Ok ''B''"
  "map_outcome CurrentEntityID
     (snd (handleNextTurn [''stunned'', ''prone''] sks expiring_state)) = Ok ''B''"
  by (simp_all add: expiring_state_def handleNextTurn_def Let_def len_def index_slice_def
        signed_simps example_state_def fighter_simps)

lemma expiring_entities:
  assumes "cks = [''prone'', ''stunned''] \<or> cks = [''stunned'', ''prone'']"
    and "Entities (fst (handleNextTurn cks sks expiring_state)) k = Some e"
  shows "Conditions e = Map.empty"
proof -
  have "Entities (fst (handleNextTurn cks sks expiring_state))
      = (Entities example_state)(''B'' \<mapsto> fighter\<lparr>Conditions := Map.empty\<rparr>)"
    using assms(1)
    by (auto simp add: expiring_state_def handleNextTurn_def Let_def len_def index_slice_def
        signed_simps example_state_def fighter_simps fun_eq_iff)
  then show ?thesis
    using assms(2)
    by (cases "k = ''B''"; cases "k = ''A''") (auto simp add: example_state_def dragon_simps)
qed

lemma expiring_orders:
  assumes "cks = [''prone'', ''stunned''] \<or> cks = [''stunned'', ''prone'']"
  shows "next_turn_orders cks (\<lambda>k. []) expiring_state"
proof -
  let ?h = "handleNextTurn cks (\<lambda>k. []) expiring_state"
  obtain s' r where h: "?h = (s', r)" by (cases ?h)
  have "map_outcome CurrentEntityID r = Ok ''B''"
    using expiring_effects(3,4) [of "\<lambda>k. []"] h assms by auto
  then obtain out where r: "r = Ok out" and out: "CurrentEntityID out = ''B''"
    by (cases r) auto
  have cur: "range_order (Conditions current) cks"
    if "Entities expiring_state ''B'' = Some current" for current
  proof -
    from that have "Conditions current = [''prone'' \<mapsto> 1, ''stunned'' \<mapsto> 1]"
      by (auto simp: expiring_state_def)
    then show ?thesis
      using assms by (auto simp: range_order_def)
  qed
  have all: "range_order (Conditions e) []" if "Entities s' k = Some e" for k e
    using expiring_entities [OF assms, of "\<lambda>k. []" k e] that h by (simp add: range_order_def)
  show ?thesis
    unfolding next_turn_orders_def h r using out cur all by simp
qed

section \<open>Damage\<close>

text \<open>
  C2 (as amended). For an existing target, \<open>apply_damage\<close> takes as final damage \<open>f\<close> the
  damage \<open>d\<close> itself, or \<open>d / 2\<close> when the target's resources contain the key
  \<open>resistances\<close> (whatever its value and the damage type). Go's division truncates
  towards zero: it is \<open>\<lfloor>d / 2\<rfloor>\<close> for \<open>d \<ge> 0\<close> and \<open>- \<lfloor>- d / 2\<rfloor>\<close> for \<open>d < 0\<close>. The new
  current HP is \<open>old - f\<close> in 64-bit arithmetic, replaced by 0 when negative; it is never
  negative, and it equals \<open>max 0 (old - f)\<close> whenever \<open>old - f\<close> fits in 64 bits.
  \<open>IsUnconscious\<close> holds exactly when the new current HP is 0.
\<close>

theorem apply_damage_result:
  assumes "Entities s (TargetID i) = Some t" and "handleApplyDamage s i = (s', r)"
  shows "\<exists>out f hp.
           r = Ok out \<and> FinalDamage out = f \<and> RemainingHP out = hp
         \<and> s' = s\<lparr>Entities := (Entities s)(TargetID i \<mapsto> t\<lparr>CurrentHP := hp\<rparr>)\<rparr>
         \<and> f = (if ''resistances'' \<in> dom (Resources t) then go_div (Damage i) 2 else Damage i)
         \<and> sint (go_div (Damage i) 2)
              = (if 0 \<le> sint (Damage i) then sint (Damage i) div 2
                 else - ((- sint (Damage i)) div 2))
         \<and> hp = (if CurrentHP t - f <s 0 then 0 else CurrentHP t - f)
         \<and> 0 \<le> sint hp
         \<and> (- (2 ^ 63) \<le> sint (CurrentHP t) - sint f \<and> sint (CurrentHP t) - sint f < 2 ^ 63
              \<longrightarrow> sint hp = max 0 (sint (CurrentHP t) - sint f))
         \<and> IsUnconscious out = (hp = 0)"
proof -
  define f where "f = (if ''resistances'' \<in> dom (Resources t) then go_div (Damage i) 2 else Damage i)"
  define hp where "hp = (if CurrentHP t - f <s 0 then 0 else CurrentHP t - f)"
  have div2: "sint (go_div (Damage i) 2)
      = (if 0 \<le> sint (Damage i) then sint (Damage i) div 2 else - ((- sint (Damage i)) div 2))"
    by (simp add: sint_go_div_2 sdiv_2_nonneg sdiv_2_neg)
  have nonneg: "0 \<le> sint hp"
    by (simp add: hp_def word_sless_alt)
  have exact: "sint hp = max 0 (sint (CurrentHP t) - sint f)"
    if "- (2 ^ 63) \<le> sint (CurrentHP t) - sint f" "sint (CurrentHP t) - sint f < 2 ^ 63"
    using that by (simp add: hp_def word_sless_alt sint_sub_exact)
  define out where "out = \<lparr>FinalDamage = f, RemainingHP = hp,
           Message_damage = Name t @ '' takes '' @ show_int f @ '' ''
                    @ DamageType i @ '' damage''
                    @ (if ''resistances'' \<in> dom (Resources t) then '' (resisted)'' else [])
                    @ ''. '' @ show_int hp @ '' HP remaining.'',
           IsUnconscious = (hp = 0)\<rparr>"
  have res: "handleApplyDamage s i =
      (s\<lparr>Entities := (Entities s)(TargetID i \<mapsto> t\<lparr>CurrentHP := hp\<rparr>)\<rparr>, Ok out)"
    using assms(1) by (simp add: handleApplyDamage_def Let_def f_def hp_def out_def dom_def)
  show ?thesis
  proof (intro exI conjI)
    show "r = Ok out" using assms(2) res by simp
    show "FinalDamage out = f" by (simp add: out_def)
    show "RemainingHP out = hp" by (simp add: out_def)
    show "s' = s\<lparr>Entities := (Entities s)(TargetID i \<mapsto> t\<lparr>CurrentHP := hp\<rparr>)\<rparr>"
      using assms(2) res by simp
    show "f = (if ''resistances'' \<in> dom (Resources t) then go_div (Damage i) 2 else Damage i)"
      by (fact f_def)
    show "sint (go_div (Damage i) 2)
      = (if 0 \<le> sint (Damage i) then sint (Damage i) div 2 else - ((- sint (Damage i)) div 2))"
      by (fact div2)
    show "hp = (if CurrentHP t - f <s 0 then 0 else CurrentHP t - f)" by (fact hp_def)
    show "0 \<le> sint hp" by (fact nonneg)
    show "- (2 ^ 63) \<le> sint (CurrentHP t) - sint f \<and> sint (CurrentHP t) - sint f < 2 ^ 63
              \<longrightarrow> sint hp = max 0 (sint (CurrentHP t) - sint f)"
      using exact by blast
    show "IsUnconscious out = (hp = 0)" by (simp add: out_def)
  qed
qed

theorem apply_damage_result_witness:
  "Entities example_state ''B'' = Some fighter
   \<and> (\<exists>out. snd (handleApplyDamage example_state
                  \<lparr>TargetID = ''B'', Damage = 20, DamageType = ''fire''\<rparr>) = Ok out
        \<and> FinalDamage out = 20 \<and> RemainingHP out = 10 \<and> \<not> IsUnconscious out)"
  using apply_damage_result [of example_state "\<lparr>TargetID = ''B'', Damage = 20, DamageType = ''fire''\<rparr>"
      fighter "fst (handleApplyDamage example_state \<lparr>TargetID = ''B'', Damage = 20, DamageType = ''fire''\<rparr>)"
      "snd (handleApplyDamage example_state \<lparr>TargetID = ''B'', Damage = 20, DamageType = ''fire''\<rparr>)"]
  by (auto simp: example_lookup fighter_simps word_sless_alt)

theorem apply_damage_floor_counterexample:
  "map_outcome (\<lambda>out. sint (FinalDamage out))
     (snd (handleApplyDamage resistant_state \<lparr>TargetID = ''B'', Damage = - 3, DamageType = ''fire''\<rparr>))
     = Ok (- 1)
   \<and> (- 3 :: int) div 2 = - 2
   \<and> map_outcome (\<lambda>out. sint (RemainingHP out))
     (snd (handleApplyDamage example_state
        \<lparr>TargetID = ''B'', Damage = - 9223372036854775808, DamageType = ''fire''\<rparr>))
     = Ok 0
   \<and> max 0 (sint (CurrentHP fighter) - sint (- 9223372036854775808 :: go_int)) = 9223372036854775838"
  by (simp add: handleApplyDamage_def Let_def resistant_state_def example_state_def fighter_simps
        go_div_def signed_divide_int_def word_sless_alt)

section \<open>Saving throws and legendary actions\<close>

text \<open>
  C6. In \<open>make_saving_throw\<close> on an existing entity, with the number drawn in its range, the
  roll is between 1 and 20 and the total is roll plus bonus. When the total is below the DC
  and the entity has a legendary resistance left, the result is forced to success, the
  use is flagged, and the resistances left go down by exactly one. When the total is below
  the DC and no resistance is left, the failure stands, nothing is flagged and the state is
  unchanged. When the total reaches the DC, the save succeeds and no resistance is used.
\<close>

theorem saving_throw_result:
  assumes "Entities s (EntityID i) = Some e" and "handleSavingThrow n s i = (s', r)"
    and "0 \<le>s n" and "n <s 20"
  shows "\<exists>out. r = Ok out
     \<and> Roll out = n + 1 \<and> 1 \<le> sint (Roll out) \<and> sint (Roll out) \<le> 20
     \<and> Bonus out = (if IsMonster e then 3 else 0)
     \<and> sint (Total out) = sint (Roll out) + sint (Bonus out)
     \<and> (if sint (Total out) < sint (DC i)
         then (if 0 < sint (LegendaryResistances e)
               then Success out \<and> UsedLegendaryResistance out
                  \<and> sint (RemainingLegendaryResists out) = sint (LegendaryResistances e) - 1
                  \<and> s' = s\<lparr>Entities := (Entities s)(EntityID i \<mapsto>
                         e\<lparr>LegendaryResistances := LegendaryResistances e - 1\<rparr>)\<rparr>
               else \<not> Success out \<and> \<not> UsedLegendaryResistance out
                  \<and> RemainingLegendaryResists out = LegendaryResistances e \<and> s' = s)
         else Success out \<and> \<not> UsedLegendaryResistance out
            \<and> RemainingLegendaryResists out = LegendaryResistances e \<and> s' = s)"
proof -
  have n: "0 \<le> sint n" "sint n < 20"
    using assms(3,4) by (simp_all add: word_sle_eq word_sless_alt)
  have roll: "sint (n + 1) = sint n + 1"
    using n sint_add_exact [of n 1] by simp
  define bonus :: go_int where "bonus = (if IsMonster e then 3 else 0)"
  have bonus: "sint bonus = (if IsMonster e then 3 else 0)"
    by (simp add: bonus_def)
  have total: "sint (n + 1 + bonus) = sint (n + 1) + sint bonus"
    using n roll bonus sint_add_exact [of "n + 1" bonus] by (simp split: if_splits)
  have dec: "sint (LegendaryResistances e - 1) = sint (LegendaryResistances e) - 1"
    if "0 < sint (LegendaryResistances e)"
    using that sint_go_bounds [of "LegendaryResistances e"]
      sint_sub_exact [of "LegendaryResistances e" 1] by simp
  define total where "total = n + 1 + bonus"
  define used where "used \<longleftrightarrow> sint total < sint (DC i) \<and> 0 < sint (LegendaryResistances e)"
  define e' where
    "e' = (if used then e\<lparr>LegendaryResistances := LegendaryResistances e - 1\<rparr> else e)"
  have "\<exists>msg. handleSavingThrow n s i =
      (s\<lparr>Entities := (Entities s)(EntityID i \<mapsto> e')\<rparr>,
       Ok \<lparr>Roll = n + 1, Bonus = bonus, Total = total,
           Success = (\<not> sint total < sint (DC i) \<or> used),
           UsedLegendaryResistance = used,
           RemainingLegendaryResists = LegendaryResistances e', Message_save = msg\<rparr>)"
    using assms(1)
    by (auto simp add: handleSavingThrow_def Let_def word_sle_eq word_sless_alt bonus_def
          total_def used_def e'_def)
  then obtain msg where res: "handleSavingThrow n s i =
      (s\<lparr>Entities := (Entities s)(EntityID i \<mapsto> e')\<rparr>,
       Ok \<lparr>Roll = n + 1, Bonus = bonus, Total = total,
           Success = (\<not> sint total < sint (DC i) \<or> used),
           UsedLegendaryResistance = used,
           RemainingLegendaryResists = LegendaryResistances e', Message_save = msg\<rparr>)"
    by blast
  define out where "out = \<lparr>Roll = n + 1, Bonus = bonus, Total = total,
           Success = (\<not> sint total < sint (DC i) \<or> used),
           UsedLegendaryResistance = used,
           RemainingLegendaryResists = LegendaryResistances e', Message_save = msg\<rparr>"
  have r: "r = Ok out" and s': "s' = s\<lparr>Entities := (Entities s)(EntityID i \<mapsto> e')\<rparr>"
    using assms(2) res by (simp_all add: out_def)
  have same: "\<not> used \<Longrightarrow> s' = s"
    using assms(1) s' by (simp add: e'_def state_update_same)
  show ?thesis
  proof (intro exI conjI)
    show "r = Ok out" by fact
    show "Roll out = n + 1" by (simp add: out_def)
    show "1 \<le> sint (Roll out)" "sint (Roll out) \<le> 20" using n roll by (simp_all add: out_def)
    show "Bonus out = (if IsMonster e then 3 else 0)" by (simp add: out_def bonus_def)
    show "sint (Total out) = sint (Roll out) + sint (Bonus out)"
      using total by (simp add: out_def total_def)
    show "if sint (Total out) < sint (DC i)
         then (if 0 < sint (LegendaryResistances e)
               then Success out \<and> UsedLegendaryResistance out
                  \<and> sint (RemainingLegendaryResists out) = sint (LegendaryResistances e) - 1
                  \<and> s' = s\<lparr>Entities := (Entities s)(EntityID i \<mapsto>
                         e\<lparr>LegendaryResistances := LegendaryResistances e - 1\<rparr>)\<rparr>
               else \<not> Success out \<and> \<not> UsedLegendaryResistance out
                  \<and> RemainingLegendaryResists out = LegendaryResistances e \<and> s' = s)
         else Success out \<and> \<not> UsedLegendaryResistance out
            \<and> RemainingLegendaryResists out = LegendaryResistances e \<and> s' = s"
    proof (cases used)
      case True
      then show ?thesis
        using dec s' by (simp add: out_def used_def e'_def)
    next
      case False
      then show ?thesis
        using same by (auto simp: out_def used_def e'_def)
    qed
  qed
qed

theorem saving_throw_result_witness:
  "Entities example_state ''A'' = Some dragon \<and> (0 :: go_int) \<le>s 0 \<and> (0 :: go_int) <s 20
   \<and> (\<exists>out. snd (handleSavingThrow 0 example_state
                   \<lparr>EntityID = ''A'', SaveType = ''DEX'', DC = 15\<rparr>) = Ok out
         \<and> Roll out = 1 \<and> Bonus out = 3 \<and> sint (Total out) = 4 \<and> Success out
         \<and> UsedLegendaryResistance out \<and> sint (RemainingLegendaryResists out) = 2)"
  using saving_throw_result [of example_state "\<lparr>EntityID = ''A'', SaveType = ''DEX'', DC = 15\<rparr>"
      dragon 0
      "fst (handleSavingThrow 0 example_state \<lparr>EntityID = ''A'', SaveType = ''DEX'', DC = 15\<rparr>)"
      "snd (handleSavingThrow 0 example_state \<lparr>EntityID = ''A'', SaveType = ''DEX'', DC = 15\<rparr>)"]
  by (auto simp: example_lookup dragon_simps word_sle_eq word_sless_alt)

text \<open>
  C7. For an existing monster, \<open>use_legendary_action\<close> with a cost above the remaining
  legendary actions returns \<open>success = false\<close> with the remaining count and leaves the
  state as it was: an ordinary output, not an error. Otherwise it subtracts the cost from
  the remaining actions and returns \<open>success = true\<close> with the new count (the exact
  difference for a cost that is not negative). An id that is not in the encounter gives an
  error and no change.
\<close>

theorem legendary_action_result:
  assumes "handleLegendaryAction s i = (s', r)"
  shows "(\<forall>m. Entities s (MonsterID i) = Some m \<longrightarrow>
           (\<exists>out. r = Ok out \<and>
              (if sint (LegendaryActions m) < sint (Cost i)
               then \<not> Success_action out \<and> RemainingActions out = LegendaryActions m \<and> s' = s
               else Success_action out
                  \<and> RemainingActions out = LegendaryActions m - Cost i
                  \<and> s' = s\<lparr>Entities := (Entities s)(MonsterID i \<mapsto>
                            m\<lparr>LegendaryActions := LegendaryActions m - Cost i\<rparr>)\<rparr>
                  \<and> (0 \<le> sint (Cost i) \<longrightarrow>
                       sint (RemainingActions out) = sint (LegendaryActions m) - sint (Cost i)))))
       \<and> (Entities s (MonsterID i) = None \<longrightarrow>
            r = Err (''monster not found: '' @ MonsterID i) \<and> s' = s)"
proof (intro conjI allI impI)
  fix m assume m: "Entities s (MonsterID i) = Some m"
  show "\<exists>out. r = Ok out \<and>
              (if sint (LegendaryActions m) < sint (Cost i)
               then \<not> Success_action out \<and> RemainingActions out = LegendaryActions m \<and> s' = s
               else Success_action out
                  \<and> RemainingActions out = LegendaryActions m - Cost i
                  \<and> s' = s\<lparr>Entities := (Entities s)(MonsterID i \<mapsto>
                            m\<lparr>LegendaryActions := LegendaryActions m - Cost i\<rparr>)\<rparr>
                  \<and> (0 \<le> sint (Cost i) \<longrightarrow>
                       sint (RemainingActions out) = sint (LegendaryActions m) - sint (Cost i)))"
  proof (cases "sint (LegendaryActions m) < sint (Cost i)")
    case True
    then show ?thesis
      using assms m by (auto simp: handleLegendaryAction_def word_sless_alt)
  next
    case False
    have exact: "sint (LegendaryActions m - Cost i) = sint (LegendaryActions m) - sint (Cost i)"
      if "0 \<le> sint (Cost i)"
      using that False sint_go_bounds [of "LegendaryActions m"]
      by (intro sint_sub_exact) auto
    show ?thesis
      using assms m False exact
      by (auto simp: handleLegendaryAction_def word_sless_alt Let_def)
  qed
next
  assume "Entities s (MonsterID i) = None"
  then show "r = Err (''monster not found: '' @ MonsterID i)" "s' = s"
    using assms by (auto simp: handleLegendaryAction_def)
qed


theorem legendary_action_result_witness:
  "Entities example_state ''A'' = Some dragon
   \<and> (\<exists>out. snd (handleLegendaryAction example_state
                   \<lparr>MonsterID = ''A'', ActionName = ''Tail Attack'', Cost = 1\<rparr>) = Ok out
         \<and> Success_action out \<and> RemainingActions out = 2)
   \<and> Entities example_state ''B'' = Some fighter
   \<and> (\<exists>out. snd (handleLegendaryAction example_state
                   \<lparr>MonsterID = ''B'', ActionName = ''Tail Attack'', Cost = 1\<rparr>) = Ok out
         \<and> \<not> Success_action out \<and> RemainingActions out = 0)
   \<and> fst (handleLegendaryAction example_state
              \<lparr>MonsterID = ''B'', ActionName = ''Tail Attack'', Cost = 1\<rparr>) = example_state
   \<and> Entities example_state ''Z'' = None
   \<and> handleLegendaryAction example_state
         \<lparr>MonsterID = ''Z'', ActionName = ''Tail Attack'', Cost = 1\<rparr>
       = (example_state, Err ''monster not found: Z'')"
  using
    legendary_action_result [of example_state
      "\<lparr>MonsterID = ''A'', ActionName = ''Tail Attack'', Cost = 1\<rparr>"
      "fst (handleLegendaryAction example_state \<lparr>MonsterID = ''A'', ActionName = ''Tail Attack'', Cost = 1\<rparr>)"
      "snd (handleLegendaryAction example_state \<lparr>MonsterID = ''A'', ActionName = ''Tail Attack'', Cost = 1\<rparr>)"]
    legendary_action_result [of example_state
      "\<lparr>MonsterID = ''B'', ActionName = ''Tail Attack'', Cost = 1\<rparr>"
      "fst (handleLegendaryAction example_state \<lparr>MonsterID = ''B'', ActionName = ''Tail Attack'', Cost = 1\<rparr>)"
      "snd (handleLegendaryAction example_state \<lparr>MonsterID = ''B'', ActionName = ''Tail Attack'', Cost = 1\<rparr>)"]
    legendary_action_result [of example_state
      "\<lparr>MonsterID = ''Z'', ActionName = ''Tail Attack'', Cost = 1\<rparr>"
      "fst (handleLegendaryAction example_state \<lparr>MonsterID = ''Z'', ActionName = ''Tail Attack'', Cost = 1\<rparr>)"
      "snd (handleLegendaryAction example_state \<lparr>MonsterID = ''Z'', ActionName = ''Tail Attack'', Cost = 1\<rparr>)"]
  by (auto simp add: example_lookup dragon_simps fighter_simps prod_eq_iff)

section \<open>Unknown entities\<close>

text \<open>
  C8. A call of any tool that names an entity (every tool but \<open>start_combat\<close> and
  \<open>next_turn\<close>), with an id that is not in the encounter, returns an error, and the
  whole state (entities, turn order, turn index and round number) is what it was.
\<close>

theorem missing_entity_is_error:
  assumes "tool_call s req s' r" and "request_entity req = Some ident"
    and "Entities s ident = None"
  shows "s' = s \<and> (\<exists>msg. r = Err msg)"
  using assms
  by (cases rule: tool_call.cases)
     (auto simp: handleApplyDamage_def handleApplyHealing_def handleAddCondition_def
        handleSavingThrow_def handleLegendaryAction_def handleTrackResource_def)

theorem missing_entity_is_error_witness:
  "tool_call example_state
     (TrackResource \<lparr>EntityID_res = ''Z'', ResourceName = ''arrows'', CurrentValue = 5\<rparr>)
     example_state (Err ''entity not found: Z'')
   \<and> request_entity
       (TrackResource \<lparr>EntityID_res = ''Z'', ResourceName = ''arrows'', CurrentValue = 5\<rparr>)
       = Some ''Z''
   \<and> Entities example_state ''Z'' = None
   \<and> (\<exists>msg. (Err ''entity not found: Z'' :: tool_output outcome) = Err msg)"
proof -
  have run: "tool_call example_state
     (TrackResource \<lparr>EntityID_res = ''Z'', ResourceName = ''arrows'', CurrentValue = 5\<rparr>)
     example_state (map_outcome TrackResourceOut (Err ''entity not found: Z''))"
    by (rule call_track_resource) (simp add: handleTrackResource_def example_lookup)
  then have run': "tool_call example_state
     (TrackResource \<lparr>EntityID_res = ''Z'', ResourceName = ''arrows'', CurrentValue = 5\<rparr>)
     example_state (Err ''entity not found: Z'')"
    by simp
  show ?thesis
    using run' missing_entity_is_error [OF run', of "''Z''"] by (simp add: example_lookup)
qed

section \<open>Turn advancement\<close>

text \<open>
  C3. The claim asks that \<open>next_turn\<close> on an empty turn order return an error. The handler
  has no such check: before any \<open>start_combat\<close>, and after a \<open>start_combat\<close> with no
  entities, it sets the turn index to 0, increments the round number and then indexes the
  empty turn order, which is a run-time panic and not an error value.
\<close>

theorem next_turn_empty_order_panics:
  "handleNextTurn cks sks RegisterCombatTools = (RegisterCombatTools\<lparr>RoundNumber := 1\<rparr>, Panic)
   \<and> fst (handleStartCombat [] insertion_sort s [])
       = \<lparr>Entities = Map.empty, TurnOrder = [], CurrentTurn = 0, RoundNumber = 1\<rparr>
   \<and> handleNextTurn cks sks (fst (handleStartCombat [] insertion_sort s []))
       = (\<lparr>Entities = Map.empty, TurnOrder = [], CurrentTurn = 0, RoundNumber = 2\<rparr>, Panic)"
  by (simp add: handleNextTurn_def handleStartCombat_def RegisterCombatTools_def Let_def len_def
        index_slice_def word_sle_eq)

text \<open>
  C10. \<open>add_condition\<close> with duration 0 on an existing target stores the condition with
  counter 0. No later call of \<open>next_turn\<close> decrements or removes it, whose turn it may be:
  after any number of calls the counter is still 0, and in the status summary of every call
  the line of the target is its name and hit points followed, between double brackets, by
  the names of its conditions separated by spaces, the condition among them exactly once.
  The same holds for duration \<open>-1\<close>, the value that stands for a permanent condition.
\<close>

theorem zero_duration_condition_persists:
  assumes "Entities s (TargetID_cond i) = Some t"
    and "Duration i = 0 \<or> Duration i = - 1"
    and "handleAddCondition s i = (s1, r)"
    and "next_turns s1 outs s2"
  shows "(\<exists>e. Entities s1 (TargetID_cond i) = Some e
             \<and> Conditions e (Condition i) = Some (Duration i))
       \<and> (\<exists>e. Entities s2 (TargetID_cond i) = Some e
             \<and> Conditions e (Condition i) = Some (Duration i))
       \<and> (\<forall>out \<in> set outs. \<exists>before after.
             distinct (before @ Condition i # after)
             \<and> CombatStatus out (TargetID_cond i)
                 = Some (Name t @ '': '' @ show_int (CurrentHP t) @ ''/'' @ show_int (MaxHP t)
                     @ '' HP [['' @ concat (map (\<lambda>c. c @ '' '') before) @ Condition i
                     @ concat (map (\<lambda>c. '' '' @ c) after) @ '']]''))"
proof -
  let ?t = "t\<lparr>Conditions := (Conditions t)(Condition i \<mapsto> Duration i)\<rparr>"
  have d: "\<not> 0 <s Duration i"
    using assms(2) by (auto simp: word_sless_alt)
  have s1: "Entities s1 (TargetID_cond i) = Some ?t"
    using assms(1,3) by (auto simp: handleAddCondition_def Let_def)
  have c: "Conditions ?t (Condition i) = Some (Duration i)"
    by simp
  have first: "\<exists>e. Entities s1 (TargetID_cond i) = Some e
             \<and> Conditions e (Condition i) = Some (Duration i)"
    using s1 by simp
  have last: "\<exists>e. Entities s2 (TargetID_cond i) = Some e
             \<and> Conditions e (Condition i) = Some (Duration i)"
    using next_turns_keep_condition [OF assms(4) s1 c d] by simp
  have lines: "\<forall>out \<in> set outs. \<exists>before after.
             distinct (before @ Condition i # after)
             \<and> CombatStatus out (TargetID_cond i)
                 = Some (Name t @ '': '' @ show_int (CurrentHP t) @ ''/'' @ show_int (MaxHP t)
                     @ '' HP [['' @ concat (map (\<lambda>c. c @ '' '') before) @ Condition i
                     @ concat (map (\<lambda>c. '' '' @ c) after) @ '']]'')"
    using next_turns_status_line [OF assms(4) s1 c d] by simp
  from first last lines show ?thesis by (intro conjI)
qed

theorem zero_duration_condition_persists_witness:
  "Entities example_state ''B'' = Some fighter
   \<and> (\<exists>s1 r out s2.
        handleAddCondition example_state
          \<lparr>TargetID_cond = ''B'', Condition = ''prone'', Duration = 0\<rparr> = (s1, r)
      \<and> next_turns s1 [out] s2
      \<and> CurrentEntityID out = ''B''
      \<and> (\<exists>e. Entities s2 ''B'' = Some e \<and> Conditions e ''prone'' = Some 0)
      \<and> CombatStatus out ''B'' = Some ''Fighter: 30/30 HP [[prone]]''
      \<and> (\<exists>before after. distinct (before @ ''prone'' # after)
            \<and> CombatStatus out ''B''
                = Some (''Fighter: '' @ show_int 30 @ ''/'' @ show_int 30
                    @ '' HP [['' @ concat (map (\<lambda>c. c @ '' '') before) @ ''prone''
                    @ concat (map (\<lambda>c. '' '' @ c) after) @ '']]'')))"
proof -
  define i where "i = \<lparr>TargetID_cond = ''B'', Condition = ''prone'', Duration = 0\<rparr>"
  define s1 where "s1 = fst (handleAddCondition example_state i)"
  define cks where "cks = [''prone'']"
  define sks where "sks = (\<lambda>k. if k = ''B'' then [''prone''] else [])"
  define s2 where "s2 = fst (handleNextTurn cks sks s1)"
  have s1: "s1 = example_state\<lparr>Entities := (Entities example_state)
      (''B'' \<mapsto> fighter\<lparr>Conditions := [''prone'' \<mapsto> 0]\<rparr>)\<rparr>"
    by (simp add: s1_def i_def handleAddCondition_def Let_def example_lookup fighter_simps)
  have add: "handleAddCondition example_state i = (s1, snd (handleAddCondition example_state i))"
    by (simp add: s1_def)
  have run: "\<exists>out. handleNextTurn cks sks s1 = (s2, Ok out) \<and> CurrentEntityID out = ''B''
      \<and> CombatStatus out ''B'' = Some ''Fighter: 30/30 HP [[prone]]''"
    by (simp add: s2_def s1 handleNextTurn_def Let_def len_def index_slice_def word_sle_eq
          word_sless_alt example_state_def fighter_simps cks_def sks_def status_line_def
          show_strings_def show_int_30)
  then obtain out where out: "handleNextTurn cks sks s1 = (s2, Ok out)" "CurrentEntityID out = ''B''"
    "CombatStatus out ''B'' = Some ''Fighter: 30/30 HP [[prone]]''"
    by blast
  have s2: "Entities s2 = (Entities example_state)
      (''B'' \<mapsto> fighter\<lparr>Conditions := [''prone'' \<mapsto> 0]\<rparr>)"
    by (simp add: s2_def s1 handleNextTurn_def Let_def len_def index_slice_def word_sle_eq
          word_sless_alt example_state_def fighter_simps cks_def)
  have orders: "next_turn_orders cks sks s1"
    unfolding next_turn_orders_def out
    using out(2) s2
    by (auto simp: s1 example_state_def range_order_def cks_def sks_def fighter_simps
          dragon_simps split: if_splits)
  have "tool_call s1 NextTurn s2 (map_outcome NextTurnOut (Ok out))"
    using orders out(1) by (rule call_next_turn)
  then have nt: "next_turns s1 [out] s2"
    by (auto intro: next_turns.intros)
  have concl: "(\<exists>e. Entities s2 ''B'' = Some e \<and> Conditions e ''prone'' = Some 0)
       \<and> (\<exists>before after. distinct (before @ ''prone'' # after)
            \<and> CombatStatus out ''B''
                = Some (''Fighter: '' @ show_int 30 @ ''/'' @ show_int 30
                    @ '' HP [['' @ concat (map (\<lambda>c. c @ '' '') before) @ ''prone''
                    @ concat (map (\<lambda>c. '' '' @ c) after) @ '']]''))"
    using zero_duration_condition_persists [of example_state i fighter s1
        "snd (handleAddCondition example_state i)" "[out]" s2] add nt
    by (simp add: i_def example_lookup fighter_simps)
  have "handleAddCondition example_state
          \<lparr>TargetID_cond = ''B'', Condition = ''prone'', Duration = 0\<rparr>
        = (s1, snd (handleAddCondition example_state i))
      \<and> next_turns s1 [out] s2
      \<and> CurrentEntityID out = ''B''
      \<and> (\<exists>e. Entities s2 ''B'' = Some e \<and> Conditions e ''prone'' = Some 0)
      \<and> CombatStatus out ''B'' = Some ''Fighter: 30/30 HP [[prone]]''
      \<and> (\<exists>before after. distinct (before @ ''prone'' # after)
            \<and> CombatStatus out ''B''
                = Some (''Fighter: '' @ show_int 30 @ ''/'' @ show_int 30
                    @ '' HP [['' @ concat (map (\<lambda>c. c @ '' '') before) @ ''prone''
                    @ concat (map (\<lambda>c. '' '' @ c) after) @ '']]''))"
    using add nt out(2,3) concl by (simp add: i_def)
  then show ?thesis
    unfolding example_lookup by blast
qed

text \<open>
  C4. Let \<open>start_combat\<close> be called with at least one entity definition, and let \<open>N\<close> be the
  number of entities of the encounter: the length of the turn order, which is the number of
  distinct ids given, and the number of definitions when their ids are distinct. The call
  leaves round 1 and turn index 0. Then \<open>N\<close> calls of \<open>next_turn\<close> can be made, and after
  any \<open>N\<close> calls the round number is 2 and the turn index 0; after any \<open>n\<close> calls the index
  is \<open>n mod N\<close> and the round number \<open>1 + n div N\<close>. Each further call increments the
  round number exactly when the index goes from the last position back to 0, leaves it
  unchanged otherwise, and never decreases it (short of the largest 64-bit integer).
\<close>

theorem full_lap_returns_to_start:
  assumes "tool_call s (StartCombat es) s0 r" and "es \<noteq> []" and "length es < 2 ^ 63"
  shows "RoundNumber s0 = 1 \<and> CurrentTurn s0 = 0
       \<and> 0 < length (TurnOrder s0)
       \<and> length (TurnOrder s0) = card (set (map ID_init es))
       \<and> (distinct (map ID_init es) \<longrightarrow> length (TurnOrder s0) = length es)
       \<and> (\<exists>outs s1. next_turns s0 outs s1 \<and> length outs = length (TurnOrder s0))
       \<and> (\<forall>outs s1. next_turns s0 outs s1 \<longrightarrow>
             sint (CurrentTurn s1) = int (length outs mod length (TurnOrder s0))
           \<and> RoundNumber s1 = 1 + of_nat (length outs div length (TurnOrder s0))
           \<and> (length outs = length (TurnOrder s0) \<longrightarrow> RoundNumber s1 = 2 \<and> CurrentTurn s1 = 0)
           \<and> (\<forall>out s2. tool_call s1 NextTurn s2 (Ok (NextTurnOut out)) \<longrightarrow>
                 (if sint (CurrentTurn s1) + 1 = int (length (TurnOrder s0))
                  then CurrentTurn s2 = 0 \<and> RoundNumber s2 = RoundNumber s1 + 1
                  else CurrentTurn s2 = CurrentTurn s1 + 1 \<and> RoundNumber s2 = RoundNumber s1)
               \<and> (sint (RoundNumber s1) < 2 ^ 63 - 1
                    \<longrightarrow> sint (RoundNumber s1) \<le> sint (RoundNumber s2))))"
proof -
  note st = start_combat_fresh [OF assms]
  define N where "N = length (TurnOrder s0)"
  have N: "length (TurnOrder s0) = N" "N < 2 ^ 63" "0 < N"
    using st(4,5) assms(3) by (simp_all add: N_def)
  have k0: "sint (CurrentTurn s0) = int 0" by (simp add: st(2))
  have laps: "sint (CurrentTurn s1) = int (length outs mod N)
           \<and> RoundNumber s1 = 1 + of_nat (length outs div N)
           \<and> (length outs = N \<longrightarrow> RoundNumber s1 = 2 \<and> CurrentTurn s1 = 0)
           \<and> (\<forall>out s2. tool_call s1 NextTurn s2 (Ok (NextTurnOut out)) \<longrightarrow>
                 (if sint (CurrentTurn s1) + 1 = int N
                  then CurrentTurn s2 = 0 \<and> RoundNumber s2 = RoundNumber s1 + 1
                  else CurrentTurn s2 = CurrentTurn s1 + 1 \<and> RoundNumber s2 = RoundNumber s1)
               \<and> (sint (RoundNumber s1) < 2 ^ 63 - 1
                    \<longrightarrow> sint (RoundNumber s1) \<le> sint (RoundNumber s2)))"
    if run: "next_turns s0 outs s1" for outs s1
  proof -
    from next_turns_counters [OF run N(1,2) k0 N(3)]
    have c: "TurnOrder s1 = TurnOrder s0" "sint (CurrentTurn s1) = int (length outs mod N)"
      "RoundNumber s1 = 1 + of_nat (length outs div N)"
      by (simp_all add: st(1))
    have lap: "RoundNumber s1 = 2 \<and> CurrentTurn s1 = 0" if "length outs = N"
    proof -
      have "sint (CurrentTurn s1) = 0" using c(2) that by simp
      then have "CurrentTurn s1 = 0" by (simp add: sint_eq_0_iff)
      moreover have "RoundNumber s1 = 2" using c(3) that N(3) by simp
      ultimately show ?thesis by simp
    qed
    have step: "(if sint (CurrentTurn s1) + 1 = int N
                  then CurrentTurn s2 = 0 \<and> RoundNumber s2 = RoundNumber s1 + 1
                  else CurrentTurn s2 = CurrentTurn s1 + 1 \<and> RoundNumber s2 = RoundNumber s1)
               \<and> (sint (RoundNumber s1) < 2 ^ 63 - 1
                    \<longrightarrow> sint (RoundNumber s1) \<le> sint (RoundNumber s2))"
      if call: "tool_call s1 NextTurn s2 (Ok (NextTurnOut out))" for out s2
    proof -
      from call obtain cks sks where h: "handleNextTurn cks sks s1 = (s2, Ok out)"
        by (rule tool_call_next_turn_Ok)
      then have s2: "s2 = fst (handleNextTurn cks sks s1)" by simp
      have k: "length outs mod N < N" using N(3) by simp
      have len1: "length (TurnOrder s1) = N" using c(1) N(1) by simp
      note sc = next_turn_step_counters [OF len1 N(2) c(2) k, of cks sks, folded s2]
      have mono: "sint (RoundNumber s1) \<le> sint (RoundNumber s2)"
        if "sint (RoundNumber s1) < 2 ^ 63 - 1"
      proof (cases "length outs mod N + 1 = N")
        case True
        have "sint (RoundNumber s1 + 1) = sint (RoundNumber s1) + 1"
          using that sint_go_bounds(1) [of "RoundNumber s1"]
            sint_add_exact [of "RoundNumber s1" 1] by simp
        then show ?thesis using sc(2) True by simp
      next
        case False
        then show ?thesis using sc(2) by simp
      qed
      show ?thesis
        using sc(1,2) c(2) mono by auto
    qed
    show ?thesis using c(2,3) lap step by blast
  qed
  have ex: "\<exists>outs s1. next_turns s0 outs s1 \<and> length outs = N"
    using fresh_next_turns [OF st(6)] by blast
  have dist: "distinct (map ID_init es) \<longrightarrow> length (TurnOrder s0) = length es"
    using distinct_card [of "map ID_init es"] by (simp add: st(3))
  show ?thesis
    using st(1,2,3,4) dist ex laps unfolding N_def by blast
qed

theorem full_lap_returns_to_start_witness:
  "\<exists>r outs s1.
      tool_call RegisterCombatTools (StartCombat [dragon_init, fighter_init]) example_state r
    \<and> [dragon_init, fighter_init] \<noteq> []
    \<and> length [dragon_init, fighter_init] < 2 ^ 63
    \<and> next_turns example_state outs s1 \<and> length outs = 2
    \<and> RoundNumber s1 = 2 \<and> CurrentTurn s1 = 0"
proof -
  obtain r where call:
    "tool_call RegisterCombatTools (StartCombat [dragon_init, fighter_init]) example_state r"
    using example_start_call by blast
  have ne: "[dragon_init, fighter_init] \<noteq> []" and small: "length [dragon_init, fighter_init] < 2 ^ 63"
    by simp_all
  note lap = full_lap_returns_to_start [OF call ne small]
  have len: "length (TurnOrder example_state) = 2"
    by (simp add: example_state_def)
  from lap obtain outs s1 where run: "next_turns example_state outs s1" "length outs = 2"
    unfolding len by blast
  from lap run have "RoundNumber s1 = 2 \<and> CurrentTurn s1 = 0"
    unfolding len by blast
  with call ne small run show ?thesis by blast
qed

section \<open>Turn order\<close>

text \<open>
  C5 (as amended). For every list of entity definitions, the turn order that \<open>start_combat\<close>
  returns and stores holds every entity id exactly once and is non-increasing by initiative:
  an entity never comes before one with a greater initiative. It is strictly descending
  exactly when the initiatives of the entities are pairwise distinct.
\<close>

theorem turn_order_non_increasing:
  assumes "tool_call s (StartCombat es) s' r"
  shows "(\<exists>msg. r = Ok (StartCombatOut \<lparr>TurnOrder_out = TurnOrder s', Message_start = msg\<rparr>))
       \<and> distinct (TurnOrder s')
       \<and> set (TurnOrder s') = dom (Entities s')
       \<and> dom (Entities s') = set (map ID_init es)
       \<and> length (turn_initiatives s') = length (TurnOrder s')
       \<and> sorted_wrt (\<lambda>a b. b \<le>s a) (turn_initiatives s')
       \<and> (sorted_wrt (\<lambda>a b. b <s a) (turn_initiatives s') \<longleftrightarrow> distinct (turn_initiatives s'))"
proof -
  from assms obtain srt keys r' where c: "sort_Slice_contract srt"
    and k: "range_order (create_entities Map.empty es) keys"
    and h: "handleStartCombat keys srt s es = (s', r')"
    and r: "r = map_outcome StartCombatOut r'"
    by (rule tool_call_StartCombatE)
  note st = start_combat_state [OF h] and ord = start_combat_order [OF c k h]
    and ini = start_combat_initiatives [OF c h]
  have out: "\<exists>msg. r = Ok (StartCombatOut \<lparr>TurnOrder_out = TurnOrder s', Message_start = msg\<rparr>)"
    using st(5) r by auto
  have len: "length (turn_initiatives s') = length (TurnOrder s')"
    by (simp add: ini(1) st(2))
  have dom: "dom (Entities s') = set (map ID_init es)"
    by (simp add: st(1) create_entities_dom)
  show ?thesis
    using out ord(2,3) dom len ini(2) sorted_strict_iff_distinct [OF ini(2)] by blast
qed

theorem turn_order_non_increasing_witness:
  "\<exists>r. tool_call RegisterCombatTools (StartCombat [dragon_init, fighter_init]) example_state r
     \<and> TurnOrder example_state = [''A'', ''B'']
     \<and> turn_initiatives example_state = [15, 10]
     \<and> sorted_wrt (\<lambda>a b. b \<le>s a) (turn_initiatives example_state)
     \<and> sorted_wrt (\<lambda>a b. b <s a) (turn_initiatives example_state)"
proof -
  obtain r where call:
    "tool_call RegisterCombatTools (StartCombat [dragon_init, fighter_init]) example_state r"
    using example_start_call by blast
  have ini: "turn_initiatives example_state = [15, 10]"
    by (simp add: turn_initiatives_def example_state_def List.map_filter_simps dragon_def
          fighter_def new_entity_fields dragon_init_def fighter_init_def)
  show ?thesis
    using call turn_order_non_increasing [OF call] ini
    by (auto simp: example_state_def)
qed

theorem turn_order_tie_counterexample:
  "sort_Slice_contract insertion_sort
   \<and> range_order (create_entities Map.empty twins) [''g1'', ''g2'']
   \<and> TurnOrder (fst (handleStartCombat [''g1'', ''g2''] insertion_sort RegisterCombatTools twins))
       = [''g1'', ''g2'']
   \<and> turn_initiatives (fst (handleStartCombat [''g1'', ''g2''] insertion_sort RegisterCombatTools twins))
       = [12, 12]
   \<and> \<not> sorted_wrt (\<lambda>a b. b <s a)
         (turn_initiatives
           (fst (handleStartCombat [''g1'', ''g2''] insertion_sort RegisterCombatTools twins)))"
  using insertion_sort_contract twins_range_order(1)
  by (simp add: turn_initiatives_def twins_start List.map_filter_simps new_entity_fields
        goblin_init_def)

section \<open>Hit point bounds\<close>

text \<open>
  C1 (as amended). \<open>start_combat\<close> with no negative hit points leaves every entity with
  \<open>0 \<le> CurrentHP \<le> MaxHP\<close>. Every other call keeps these bounds for every entity when the
  damage passed to \<open>apply_damage\<close> is not negative, and the amount passed to
  \<open>apply_healing\<close> is not negative and its sum with the target's current hit points fits in
  a 64-bit integer. \<open>next_turn\<close>, \<open>add_condition\<close>, \<open>make_saving_throw\<close>,
  \<open>use_legendary_action\<close> and \<open>track_resource\<close> change no entity's hit points. For every
  input, \<open>apply_damage\<close> leaves its target with \<open>CurrentHP \<ge> 0\<close> and \<open>apply_healing\<close> leaves
  its target with \<open>CurrentHP \<le> MaxHP\<close>.
\<close>

theorem hp_bounds_after_tool_call:
  assumes "tool_call s req s' r"
  shows "(hp_safe_request s req \<and> (hp_bounds s \<or> (\<exists>es. req = StartCombat es)) \<longrightarrow> hp_bounds s')
       \<and> (\<not> changes_hp req \<longrightarrow> hp_unchanged s s')
       \<and> (\<forall>i e'. req = ApplyDamage i \<and> Entities s' (TargetID i) = Some e'
             \<longrightarrow> 0 \<le>s CurrentHP e')
       \<and> (\<forall>i e'. req = ApplyHealing i \<and> Entities s' (TargetID_heal i) = Some e'
             \<longrightarrow> CurrentHP e' \<le>s MaxHP e')"
  using assms
proof (cases rule: tool_call.cases)
  case (call_start_combat srt es keys r')
  then show ?thesis using start_combat_hp by auto
next
  case (call_next_turn cks sks r')
  have u: "hp_unchanged s s'" using call_next_turn(4) by (rule next_turn_hp)
  show ?thesis using call_next_turn(1) u hp_unchanged_bounds [OF u] by auto
next
  case (call_apply_damage i r')
  note h = call_apply_damage(3)
  have "hp_bounds s'" if safe: "0 \<le>s Damage i" and b: "hp_bounds s"
    unfolding hp_bounds_def
  proof (intro allI impI)
    fix k e' assume e': "Entities s' k = Some e'"
    from apply_damage_hp [OF h e'] obtain e where e: "Entities s k = Some e"
      "MaxHP e' = MaxHP e" "k \<noteq> TargetID i \<longrightarrow> CurrentHP e' = CurrentHP e"
      "k = TargetID i \<longrightarrow> 0 \<le>s CurrentHP e'
         \<and> (0 \<le>s Damage i \<and> 0 \<le>s CurrentHP e \<longrightarrow> CurrentHP e' \<le>s CurrentHP e)"
      by blast
    have "0 \<le>s CurrentHP e" "CurrentHP e \<le>s MaxHP e"
      using b e(1) by (auto simp: hp_bounds_def)
    then show "0 \<le>s CurrentHP e' \<and> CurrentHP e' \<le>s MaxHP e'"
      using e safe by (cases "k = TargetID i") (auto simp: signed_simps)
  qed
  moreover have "0 \<le>s CurrentHP e'" if "Entities s' (TargetID i) = Some e'" for e'
    using apply_damage_hp [OF h that] by blast
  ultimately show ?thesis using call_apply_damage(1) by auto
next
  case (call_apply_healing i r')
  note h = call_apply_healing(3)
  have "hp_bounds s'" if safe: "hp_safe_request s (ApplyHealing i)" and b: "hp_bounds s"
    unfolding hp_bounds_def
  proof (intro allI impI)
    fix k e' assume e': "Entities s' k = Some e'"
    from apply_healing_hp [OF h e'] obtain e where e: "Entities s k = Some e"
      "MaxHP e' = MaxHP e" "k \<noteq> TargetID_heal i \<longrightarrow> CurrentHP e' = CurrentHP e"
      "k = TargetID_heal i \<longrightarrow> CurrentHP e' \<le>s MaxHP e'
         \<and> (0 \<le>s Amount i \<and> sint (CurrentHP e) + sint (Amount i) < 2 ^ 63
              \<and> 0 \<le>s CurrentHP e \<and> CurrentHP e \<le>s MaxHP e \<longrightarrow> 0 \<le>s CurrentHP e')"
      by blast
    have be: "0 \<le>s CurrentHP e" "CurrentHP e \<le>s MaxHP e"
      using b e(1) by (auto simp: hp_bounds_def)
    show "0 \<le>s CurrentHP e' \<and> CurrentHP e' \<le>s MaxHP e'"
    proof (cases "k = TargetID_heal i")
      case True
      then show ?thesis using e be safe by auto
    next
      case False
      then show ?thesis using e be by auto
    qed
  qed
  moreover have "CurrentHP e' \<le>s MaxHP e'" if "Entities s' (TargetID_heal i) = Some e'" for e'
    using apply_healing_hp [OF h that] by blast
  ultimately show ?thesis using call_apply_healing(1) by auto
next
  case (call_add_condition i r')
  have u: "hp_unchanged s s'" using call_add_condition(3) by (rule add_condition_hp)
  show ?thesis using call_add_condition(1) u hp_unchanged_bounds [OF u] by auto
next
  case (call_make_saving_throw n i r')
  have u: "hp_unchanged s s'" using call_make_saving_throw(5) by (rule saving_throw_hp)
  show ?thesis using call_make_saving_throw(1) u hp_unchanged_bounds [OF u] by auto
next
  case (call_use_legendary_action i r')
  have u: "hp_unchanged s s'" using call_use_legendary_action(3) by (rule legendary_action_hp)
  show ?thesis using call_use_legendary_action(1) u hp_unchanged_bounds [OF u] by auto
next
  case (call_track_resource i r')
  have u: "hp_unchanged s s'" using call_track_resource(3) by (rule track_resource_hp)
  show ?thesis using call_track_resource(1) u hp_unchanged_bounds [OF u] by auto
qed


theorem hp_bounds_after_tool_call_witness:
  "tool_call example_state
     (ApplyDamage \<lparr>TargetID = ''B'', Damage = 20, DamageType = ''fire''\<rparr>)
     (fst (handleApplyDamage example_state \<lparr>TargetID = ''B'', Damage = 20, DamageType = ''fire''\<rparr>))
     (map_outcome ApplyDamageOut
       (snd (handleApplyDamage example_state \<lparr>TargetID = ''B'', Damage = 20, DamageType = ''fire''\<rparr>)))
   \<and> hp_safe_request example_state
       (ApplyDamage \<lparr>TargetID = ''B'', Damage = 20, DamageType = ''fire''\<rparr>)
   \<and> hp_bounds example_state
   \<and> hp_bounds
       (fst (handleApplyDamage example_state \<lparr>TargetID = ''B'', Damage = 20, DamageType = ''fire''\<rparr>))
   \<and> map_option CurrentHP
       (Entities (fst (handleApplyDamage example_state
          \<lparr>TargetID = ''B'', Damage = 20, DamageType = ''fire''\<rparr>)) ''B'') = Some 10"
proof -
  define i where "i = \<lparr>TargetID = ''B'', Damage = 20, DamageType = ''fire''\<rparr>"
  have call: "tool_call example_state (ApplyDamage i) (fst (handleApplyDamage example_state i))
      (map_outcome ApplyDamageOut (snd (handleApplyDamage example_state i)))"
    by (rule call_apply_damage) simp
  have safe: "hp_safe_request example_state (ApplyDamage i)"
    by (simp add: i_def signed_simps)
  have hp: "map_option CurrentHP (Entities (fst (handleApplyDamage example_state i)) ''B'') = Some 10"
    by (simp add: i_def handleApplyDamage_def Let_def example_lookup fighter_simps signed_simps)
  show ?thesis
    using call safe example_hp_bounds hp hp_bounds_after_tool_call [OF call]
    unfolding i_def by blast
qed

theorem hp_bounds_counterexample:
  "hp_bounds example_state
   \<and> map_option CurrentHP (Entities (fst (handleApplyDamage example_state
        \<lparr>TargetID = ''B'', Damage = - 5, DamageType = ''fire''\<rparr>)) ''B'') = Some 35
   \<and> map_option MaxHP (Entities (fst (handleApplyDamage example_state
        \<lparr>TargetID = ''B'', Damage = - 5, DamageType = ''fire''\<rparr>)) ''B'') = Some 30
   \<and> \<not> hp_bounds (fst (handleApplyDamage example_state
        \<lparr>TargetID = ''B'', Damage = - 5, DamageType = ''fire''\<rparr>))
   \<and> map_option CurrentHP (Entities (fst (handleApplyHealing example_state
        \<lparr>TargetID_heal = ''B'', Amount = - 40\<rparr>)) ''B'') = Some (- 10)
   \<and> \<not> hp_bounds (fst (handleApplyHealing example_state
        \<lparr>TargetID_heal = ''B'', Amount = - 40\<rparr>))
   \<and> map_option CurrentHP (Entities (fst (handleApplyHealing example_state
        \<lparr>TargetID_heal = ''B'', Amount = 9223372036854775807\<rparr>)) ''B'')
       = Some (- 9223372036854775779)
   \<and> \<not> hp_bounds (fst (handleApplyHealing example_state
        \<lparr>TargetID_heal = ''B'', Amount = 9223372036854775807\<rparr>))
   \<and> map_option CurrentHP (Entities (fst (handleStartCombat [''g1''] insertion_sort
        RegisterCombatTools [(goblin_init ''g1'')\<lparr>HP := - 1\<rparr>])) ''g1'') = Some (- 1)
   \<and> \<not> hp_bounds (fst (handleStartCombat [''g1''] insertion_sort
        RegisterCombatTools [(goblin_init ''g1'')\<lparr>HP := - 1\<rparr>]))"
proof -
  let ?d = "fst (handleApplyDamage example_state
        \<lparr>TargetID = ''B'', Damage = - 5, DamageType = ''fire''\<rparr>)"
  let ?h1 = "fst (handleApplyHealing example_state \<lparr>TargetID_heal = ''B'', Amount = - 40\<rparr>)"
  let ?h2 = "fst (handleApplyHealing example_state
        \<lparr>TargetID_heal = ''B'', Amount = 9223372036854775807\<rparr>)"
  let ?s = "fst (handleStartCombat [''g1''] insertion_sort
        RegisterCombatTools [(goblin_init ''g1'')\<lparr>HP := - 1\<rparr>])"
  have d: "Entities ?d ''B'' = Some (fighter\<lparr>CurrentHP := 35\<rparr>)"
    by (simp add: handleApplyDamage_def Let_def example_lookup fighter_simps signed_simps)
  have h1: "Entities ?h1 ''B'' = Some (fighter\<lparr>CurrentHP := - 10\<rparr>)"
    by (simp add: handleApplyHealing_def Let_def example_lookup fighter_simps signed_simps)
  have h2: "Entities ?h2 ''B'' = Some (fighter\<lparr>CurrentHP := - 9223372036854775779\<rparr>)"
    by (simp add: handleApplyHealing_def Let_def example_lookup fighter_simps signed_simps)
  have s: "Entities ?s ''g1'' = Some (new_entity ((goblin_init ''g1'')\<lparr>HP := - 1\<rparr>))"
    by (simp add: handleStartCombat_def Let_def goblin_init_def)
  have "\<not> hp_bounds ?d"
    using d by (rule hp_bounds_violated) (simp add: fighter_simps signed_simps)
  moreover have "\<not> hp_bounds ?h1"
    using h1 by (rule hp_bounds_violated) (simp add: fighter_simps signed_simps)
  moreover have "\<not> hp_bounds ?h2"
    using h2 by (rule hp_bounds_violated) (simp add: fighter_simps signed_simps)
  moreover have "\<not> hp_bounds ?s"
    using s by (rule hp_bounds_violated) (simp add: new_entity_fields signed_simps)
  ultimately show ?thesis
    using example_hp_bounds by (simp add: d h1 h2 s fighter_simps new_entity_fields)
qed

section \<open>Determinism\<close>

text \<open>
  C9 (as amended). Two calls of the same tool with the same input from the same state:
  \<open>apply_damage\<close>, \<open>apply_healing\<close>, \<open>add_condition\<close>, \<open>use_legendary_action\<close> and
  \<open>track_resource\<close> give the same output and the same state. \<open>next_turn\<close> gives the same
  state, and either panics both times or returns the same current entity, the same round
  number, the same effect strings up to their order, and status lines for the same entities
  that agree up to the order of the condition names: both lines of an entity are its name
  and hit points followed by the names of all its conditions, each once, and they are equal
  when the entity has at most one condition. The order of the effect strings and of the
  condition names in a status line is that of Go's map iteration. \<open>start_combat\<close> gives
  the same entities, turn index and round number, a turn order over the same ids and the
  same sequence of initiatives; when the initiatives are pairwise distinct it gives the same
  turn order, state and output, and otherwise entities with equal initiative may come in
  either order.
\<close>

theorem tool_call_determinism:
  assumes "tool_call s req s1 r1" and "tool_call s req s2 r2"
  shows "(deterministic_tool req \<longrightarrow> s1 = s2 \<and> r1 = r2)
       \<and> (req = NextTurn \<longrightarrow>
            s1 = s2 \<and> (r1 = Panic \<longleftrightarrow> r2 = Panic)
            \<and> (\<forall>out1. r1 = Ok (NextTurnOut out1) \<longrightarrow>
                 (\<exists>out2. r2 = Ok (NextTurnOut out2)
                    \<and> CurrentEntityID out2 = CurrentEntityID out1
                    \<and> CurrentEntityName out2 = CurrentEntityName out1
                    \<and> RoundNumber_out out2 = RoundNumber_out out1
                    \<and> mset (Effects out2) = mset (Effects out1)
                    \<and> dom (CombatStatus out2) = dom (CombatStatus out1)
                    \<and> (\<forall>id. case Entities s1 id of
                          None \<Rightarrow> CombatStatus out1 id = None \<and> CombatStatus out2 id = None
                        | Some e \<Rightarrow>
                            (\<exists>cl1 cl2. distinct cl1 \<and> set cl1 = dom (Conditions e)
                               \<and> distinct cl2 \<and> set cl2 = dom (Conditions e)
                               \<and> CombatStatus out1 id
                                   = Some (Name e @ '': '' @ show_int (CurrentHP e) @ ''/''
                                       @ show_int (MaxHP e) @ '' HP''
                                       @ (if cl1 = [] then []
                                          else '' [['' @ join_space cl1 @ '']]''))
                               \<and> CombatStatus out2 id
                                   = Some (Name e @ '': '' @ show_int (CurrentHP e) @ ''/''
                                       @ show_int (MaxHP e) @ '' HP''
                                       @ (if cl2 = [] then []
                                          else '' [['' @ join_space cl2 @ '']]'')))
                            \<and> (card (dom (Conditions e)) \<le> 1
                                 \<longrightarrow> CombatStatus out2 id = CombatStatus out1 id)))))
       \<and> ((\<exists>es. req = StartCombat es) \<longrightarrow>
            Entities s1 = Entities s2 \<and> CurrentTurn s1 = CurrentTurn s2
            \<and> RoundNumber s1 = RoundNumber s2
            \<and> mset (TurnOrder s1) = mset (TurnOrder s2)
            \<and> turn_initiatives s1 = turn_initiatives s2
            \<and> (distinct (turn_initiatives s1) \<longrightarrow> s1 = s2 \<and> r1 = r2))"
  using assms(1)
proof (cases rule: tool_call.cases)
  case a: (call_start_combat srt1 es keys1 r1')
  from assms(2) [unfolded a(1)] obtain srt2 keys2 r2' where b: "sort_Slice_contract srt2"
    "range_order (create_entities Map.empty es) keys2"
    "handleStartCombat keys2 srt2 s es = (s2, r2')" "r2 = map_outcome StartCombatOut r2'"
    by (rule tool_call_StartCombatE)
  note d = start_combat_deterministic [OF a(3,4,5) b(1,2,3)]
  show ?thesis
    using d a(1,2) b(4) by auto
next
  case a: (call_next_turn cks1 sks1 r1')
  from assms(2) [unfolded a(1)] obtain cks2 sks2 r2' where b: "next_turn_orders cks2 sks2 s"
    "handleNextTurn cks2 sks2 s = (s2, r2')" "r2 = map_outcome NextTurnOut r2'"
    by (rule tool_call_NextTurnE)
  note d = next_turn_deterministic [OF a(3,4) b(1,2)]
  have p: "r1 = Panic \<longleftrightarrow> r2 = Panic"
    using d(2) a(2) b(3) by (cases r1'; cases r2') simp_all
  have o: "\<exists>out2. r2 = Ok (NextTurnOut out2)
                    \<and> CurrentEntityID out2 = CurrentEntityID out1
                    \<and> CurrentEntityName out2 = CurrentEntityName out1
                    \<and> RoundNumber_out out2 = RoundNumber_out out1
                    \<and> mset (Effects out2) = mset (Effects out1)
                    \<and> dom (CombatStatus out2) = dom (CombatStatus out1)
                    \<and> (\<forall>id. case Entities s1 id of
                          None \<Rightarrow> CombatStatus out1 id = None \<and> CombatStatus out2 id = None
                        | Some e \<Rightarrow>
                            (\<exists>cl1 cl2. distinct cl1 \<and> set cl1 = dom (Conditions e)
                               \<and> distinct cl2 \<and> set cl2 = dom (Conditions e)
                               \<and> CombatStatus out1 id
                                   = Some (Name e @ '': '' @ show_int (CurrentHP e) @ ''/''
                                       @ show_int (MaxHP e) @ '' HP''
                                       @ (if cl1 = [] then []
                                          else '' [['' @ join_space cl1 @ '']]''))
                               \<and> CombatStatus out2 id
                                   = Some (Name e @ '': '' @ show_int (CurrentHP e) @ ''/''
                                       @ show_int (MaxHP e) @ '' HP''
                                       @ (if cl2 = [] then []
                                          else '' [['' @ join_space cl2 @ '']]'')))
                            \<and> (card (dom (Conditions e)) \<le> 1
                                 \<longrightarrow> CombatStatus out2 id = CombatStatus out1 id))"
    if "r1 = Ok (NextTurnOut out1)" for out1
  proof -
    from that a(2) have r1': "r1' = Ok out1" by (cases r1') simp_all
    from d(3) [OF this] obtain out2 where out2: "r2' = Ok out2"
      "CurrentEntityID out2 = CurrentEntityID out1"
      "CurrentEntityName out2 = CurrentEntityName out1"
      "RoundNumber_out out2 = RoundNumber_out out1"
      "mset (Effects out2) = mset (Effects out1)"
      "dom (CombatStatus out2) = dom (CombatStatus out1)"
      by blast
    have h1: "handleNextTurn cks1 sks1 s = (s1, Ok out1)" using a(4) r1' by simp
    have h2: "handleNextTurn cks2 sks2 s = (s1, Ok out2)" using b(2) out2(1) d(1) by simp
    note st = next_turn_status_agree [OF a(3) h1 b(1) h2]
    have r2: "r2 = Ok (NextTurnOut out2)" using b(3) out2(1) by simp
    show ?thesis
    proof (intro exI [of _ out2] conjI allI)
      show "r2 = Ok (NextTurnOut out2)" by (rule r2)
      show "CurrentEntityID out2 = CurrentEntityID out1" by (rule out2(2))
      show "CurrentEntityName out2 = CurrentEntityName out1" by (rule out2(3))
      show "RoundNumber_out out2 = RoundNumber_out out1" by (rule out2(4))
      show "mset (Effects out2) = mset (Effects out1)" by (rule out2(5))
      show "dom (CombatStatus out2) = dom (CombatStatus out1)" by (rule out2(6))
    next
      fix id
      show "case Entities s1 id of
                          None \<Rightarrow> CombatStatus out1 id = None \<and> CombatStatus out2 id = None
                        | Some e \<Rightarrow>
                            (\<exists>cl1 cl2. distinct cl1 \<and> set cl1 = dom (Conditions e)
                               \<and> distinct cl2 \<and> set cl2 = dom (Conditions e)
                               \<and> CombatStatus out1 id
                                   = Some (Name e @ '': '' @ show_int (CurrentHP e) @ ''/''
                                       @ show_int (MaxHP e) @ '' HP''
                                       @ (if cl1 = [] then []
                                          else '' [['' @ join_space cl1 @ '']]''))
                               \<and> CombatStatus out2 id
                                   = Some (Name e @ '': '' @ show_int (CurrentHP e) @ ''/''
                                       @ show_int (MaxHP e) @ '' HP''
                                       @ (if cl2 = [] then []
                                          else '' [['' @ join_space cl2 @ '']]'')))
                            \<and> (card (dom (Conditions e)) \<le> 1
                                 \<longrightarrow> CombatStatus out2 id = CombatStatus out1 id)"
        by (rule st)
    qed
  qed
  show ?thesis using a(1) d(1) p o by simp
next
  case a: (call_apply_damage i r1')
  from assms(2) [unfolded a(1)] show ?thesis
    using a by (auto elim: tool_call_ApplyDamageE)
next
  case a: (call_apply_healing i r1')
  from assms(2) [unfolded a(1)] show ?thesis
    using a by (auto elim: tool_call_ApplyHealingE)
next
  case a: (call_add_condition i r1')
  from assms(2) [unfolded a(1)] show ?thesis
    using a by (auto elim: tool_call_AddConditionE)
next
  case a: (call_make_saving_throw n i r1')
  then show ?thesis by simp
next
  case a: (call_use_legendary_action i r1')
  from assms(2) [unfolded a(1)] show ?thesis
    using a by (auto elim: tool_call_UseLegendaryActionE)
next
  case a: (call_track_resource i r1')
  from assms(2) [unfolded a(1)] show ?thesis
    using a by (auto elim: tool_call_TrackResourceE)
qed

theorem tool_call_determinism_witness:
  "tool_call RegisterCombatTools (StartCombat [dragon_init, fighter_init])
     (fst (handleStartCombat [''B'', ''A''] insertion_sort RegisterCombatTools
             [dragon_init, fighter_init]))
     (map_outcome StartCombatOut
        (snd (handleStartCombat [''B'', ''A''] insertion_sort RegisterCombatTools
                [dragon_init, fighter_init])))
   \<and> tool_call RegisterCombatTools (StartCombat [dragon_init, fighter_init])
     (fst (handleStartCombat [''A'', ''B''] insertion_sort RegisterCombatTools
             [dragon_init, fighter_init]))
     (map_outcome StartCombatOut
        (snd (handleStartCombat [''A'', ''B''] insertion_sort RegisterCombatTools
                [dragon_init, fighter_init])))
   \<and> distinct (turn_initiatives
        (fst (handleStartCombat [''B'', ''A''] insertion_sort RegisterCombatTools
                [dragon_init, fighter_init])))
   \<and> fst (handleStartCombat [''B'', ''A''] insertion_sort RegisterCombatTools
            [dragon_init, fighter_init])
     = fst (handleStartCombat [''A'', ''B''] insertion_sort RegisterCombatTools
            [dragon_init, fighter_init])
   \<and> TurnOrder (fst (handleStartCombat [''A'', ''B''] insertion_sort RegisterCombatTools
            [dragon_init, fighter_init])) = [''A'', ''B'']
   \<and> tool_call two_conditions_state NextTurn
     (fst (handleNextTurn [''prone'', ''stunned'']
        (\<lambda>k. if k = ''B'' then [''prone'', ''stunned''] else []) two_conditions_state))
     (map_outcome NextTurnOut (snd (handleNextTurn [''prone'', ''stunned'']
        (\<lambda>k. if k = ''B'' then [''prone'', ''stunned''] else []) two_conditions_state)))
   \<and> tool_call two_conditions_state NextTurn
     (fst (handleNextTurn [''prone'', ''stunned'']
        (\<lambda>k. if k = ''B'' then [''stunned'', ''prone''] else []) two_conditions_state))
     (map_outcome NextTurnOut (snd (handleNextTurn [''prone'', ''stunned'']
        (\<lambda>k. if k = ''B'' then [''stunned'', ''prone''] else []) two_conditions_state)))
   \<and> fst (handleNextTurn [''prone'', ''stunned'']
        (\<lambda>k. if k = ''B'' then [''prone'', ''stunned''] else []) two_conditions_state)
     = fst (handleNextTurn [''prone'', ''stunned'']
        (\<lambda>k. if k = ''B'' then [''stunned'', ''prone''] else []) two_conditions_state)"
proof -
  let ?es = "[dragon_init, fighter_init]"
  let ?h1 = "handleStartCombat [''B'', ''A''] insertion_sort RegisterCombatTools ?es"
  let ?h2 = "handleStartCombat [''A'', ''B''] insertion_sort RegisterCombatTools ?es"
  let ?sks1 = "\<lambda>k. if k = ''B'' then [''prone'', ''stunned''] else []"
  let ?sks2 = "\<lambda>k. if k = ''B'' then [''stunned'', ''prone''] else []"
  let ?n1 = "handleNextTurn [''prone'', ''stunned''] ?sks1 two_conditions_state"
  let ?n2 = "handleNextTurn [''prone'', ''stunned''] ?sks2 two_conditions_state"
  have k1: "range_order (create_entities Map.empty ?es) [''B'', ''A'']"
    and k2: "range_order (create_entities Map.empty ?es) [''A'', ''B'']"
    unfolding example_entities by (auto simp: range_order_def)
  have c1: "tool_call RegisterCombatTools (StartCombat ?es) (fst ?h1)
      (map_outcome StartCombatOut (snd ?h1))"
    using insertion_sort_contract k1 by (rule call_start_combat) simp
  have c2: "tool_call RegisterCombatTools (StartCombat ?es) (fst ?h2)
      (map_outcome StartCombatOut (snd ?h2))"
    using insertion_sort_contract k2 by (rule call_start_combat) simp
  have d: "distinct (turn_initiatives (fst ?h1))"
    by (simp add: example_start example_turn_initiatives)
  have o: "TurnOrder (fst ?h1) = [''A'', ''B'']"
    by (simp add: example_start example_state_def)
  have n1: "tool_call two_conditions_state NextTurn (fst ?n1) (map_outcome NextTurnOut (snd ?n1))"
    by (rule call_next_turn [OF two_conditions_orders]) simp_all
  have n2: "tool_call two_conditions_state NextTurn (fst ?n2) (map_outcome NextTurnOut (snd ?n2))"
    by (rule call_next_turn [OF two_conditions_orders]) auto
  from tool_call_determinism [OF c1 c2] d have e: "fst ?h1 = fst ?h2" by blast
  from tool_call_determinism [OF n1 n2] have f: "fst ?n1 = fst ?n2" by blast
  from o e have o2: "TurnOrder (fst ?h2) = [''A'', ''B'']" by simp
  from c1 c2 d e o2 n1 n2 f show ?thesis by blast
qed

theorem tool_call_order_counterexample:
  "tool_call RegisterCombatTools (StartCombat twins)
     (fst (handleStartCombat [''g1'', ''g2''] insertion_sort RegisterCombatTools twins))
     (map_outcome StartCombatOut
        (snd (handleStartCombat [''g1'', ''g2''] insertion_sort RegisterCombatTools twins)))
   \<and> tool_call RegisterCombatTools (StartCombat twins)
     (fst (handleStartCombat [''g2'', ''g1''] insertion_sort RegisterCombatTools twins))
     (map_outcome StartCombatOut
        (snd (handleStartCombat [''g2'', ''g1''] insertion_sort RegisterCombatTools twins)))
   \<and> TurnOrder (fst (handleStartCombat [''g1'', ''g2''] insertion_sort RegisterCombatTools twins))
       = [''g1'', ''g2'']
   \<and> TurnOrder (fst (handleStartCombat [''g2'', ''g1''] insertion_sort RegisterCombatTools twins))
       = [''g2'', ''g1'']
   \<and> fst (handleStartCombat [''g1'', ''g2''] insertion_sort RegisterCombatTools twins)
       \<noteq> fst (handleStartCombat [''g2'', ''g1''] insertion_sort RegisterCombatTools twins)
   \<and> tool_call two_conditions_state NextTurn
     (fst (handleNextTurn [''prone'', ''stunned'']
        (\<lambda>k. if k = ''B'' then [''prone'', ''stunned''] else []) two_conditions_state))
     (map_outcome NextTurnOut (snd (handleNextTurn [''prone'', ''stunned'']
        (\<lambda>k. if k = ''B'' then [''prone'', ''stunned''] else []) two_conditions_state)))
   \<and> tool_call two_conditions_state NextTurn
     (fst (handleNextTurn [''prone'', ''stunned'']
        (\<lambda>k. if k = ''B'' then [''stunned'', ''prone''] else []) two_conditions_state))
     (map_outcome NextTurnOut (snd (handleNextTurn [''prone'', ''stunned'']
        (\<lambda>k. if k = ''B'' then [''stunned'', ''prone''] else []) two_conditions_state)))
   \<and> map_outcome (\<lambda>out. CombatStatus out ''B'') (snd (handleNextTurn [''prone'', ''stunned'']
        (\<lambda>k. if k = ''B'' then [''prone'', ''stunned''] else []) two_conditions_state))
     \<noteq> map_outcome (\<lambda>out. CombatStatus out ''B'') (snd (handleNextTurn [''prone'', ''stunned'']
        (\<lambda>k. if k = ''B'' then [''stunned'', ''prone''] else []) two_conditions_state))
   \<and> tool_call expiring_state NextTurn
     (fst (handleNextTurn [''prone'', ''stunned''] (\<lambda>k. []) expiring_state))
     (map_outcome NextTurnOut
        (snd (handleNextTurn [''prone'', ''stunned''] (\<lambda>k. []) expiring_state)))
   \<and> tool_call expiring_state NextTurn
     (fst (handleNextTurn [''stunned'', ''prone''] (\<lambda>k. []) expiring_state))
     (map_outcome NextTurnOut
        (snd (handleNextTurn [''stunned'', ''prone''] (\<lambda>k. []) expiring_state)))
   \<and> map_outcome Effects
        (snd (handleNextTurn [''prone'', ''stunned''] (\<lambda>k. []) expiring_state))
     \<noteq> map_outcome Effects
        (snd (handleNextTurn [''stunned'', ''prone''] (\<lambda>k. []) expiring_state))"
proof -
  let ?h1 = "handleStartCombat [''g1'', ''g2''] insertion_sort RegisterCombatTools twins"
  let ?h2 = "handleStartCombat [''g2'', ''g1''] insertion_sort RegisterCombatTools twins"
  let ?sks1 = "\<lambda>k. if k = ''B'' then [''prone'', ''stunned''] else []"
  let ?sks2 = "\<lambda>k. if k = ''B'' then [''stunned'', ''prone''] else []"
  let ?n1 = "handleNextTurn [''prone'', ''stunned''] ?sks1 two_conditions_state"
  let ?n2 = "handleNextTurn [''prone'', ''stunned''] ?sks2 two_conditions_state"
  have c1: "tool_call RegisterCombatTools (StartCombat twins) (fst ?h1)
      (map_outcome StartCombatOut (snd ?h1))"
    using insertion_sort_contract twins_range_order(1) by (rule call_start_combat) simp
  have c2: "tool_call RegisterCombatTools (StartCombat twins) (fst ?h2)
      (map_outcome StartCombatOut (snd ?h2))"
    using insertion_sort_contract twins_range_order(2) by (rule call_start_combat) simp
  have o: "TurnOrder (fst ?h1) = [''g1'', ''g2'']" "TurnOrder (fst ?h2) = [''g2'', ''g1'']"
    by (simp_all add: twins_start)
  then have ne: "fst ?h1 \<noteq> fst ?h2" by auto
  have n1: "tool_call two_conditions_state NextTurn (fst ?n1) (map_outcome NextTurnOut (snd ?n1))"
    by (rule call_next_turn [OF two_conditions_orders]) simp_all
  have n2: "tool_call two_conditions_state NextTurn (fst ?n2) (map_outcome NextTurnOut (snd ?n2))"
    by (rule call_next_turn [OF two_conditions_orders]) auto
  have d: "map_outcome (\<lambda>out. CombatStatus out ''B'') (snd ?n1)
      \<noteq> map_outcome (\<lambda>out. CombatStatus out ''B'') (snd ?n2)"
    by (simp add: two_conditions_next_turn(1) status_line_def show_strings_def Let_def)
  let ?m1 = "handleNextTurn [''prone'', ''stunned''] (\<lambda>k. []) expiring_state"
  let ?m2 = "handleNextTurn [''stunned'', ''prone''] (\<lambda>k. []) expiring_state"
  have m1: "tool_call expiring_state NextTurn (fst ?m1) (map_outcome NextTurnOut (snd ?m1))"
    by (rule call_next_turn [OF expiring_orders]) simp_all
  have m2: "tool_call expiring_state NextTurn (fst ?m2) (map_outcome NextTurnOut (snd ?m2))"
    by (rule call_next_turn [OF expiring_orders]) simp_all
  have e: "map_outcome Effects (snd ?m1) \<noteq> map_outcome Effects (snd ?m2)"
    unfolding expiring_effects by simp
  from c1 c2 o ne n1 n2 d m1 m2 e show ?thesis by blast
qed

end
